theory Spec2Isabelle
  imports Main "HOL-Library.AList" "HOL-Library.Sublist"
begin

section \<open>Values, errors and dictionaries\<close>

text \<open>
  The world document is what \<^verbatim>\<open>yaml.safe_load\<close> returns: null, booleans, integers,
  strings, lists and mappings. Mapping keys are strings (room, item and field names).
  A Python dict is an association list in insertion order; a dict has each key once, so
  the lists that stand for dicts have distinct keys. \<^verbatim>\<open>d[k] = v\<close> is
  \<^const>\<open>AList.update\<close>: it replaces the value in place when the key is there and appends
  the pair otherwise, as a dict does.
\<close>

datatype pyval =
    PNone
  | PBool bool
  | PInt int
  | PStr string
  | PList "pyval list"
  | PDict "(string \<times> pyval) list"

datatype error = KeyError | TypeError | ValueError | AttributeError | NetworkXError

text \<open>Truth value of an object, as \<^verbatim>\<open>if v:\<close> tests it.\<close>

fun truthy :: "pyval \<Rightarrow> bool" where
  "truthy PNone = False"
| "truthy (PBool b) = b"
| "truthy (PInt i) = (i \<noteq> 0)"
| "truthy (PStr s) = (s \<noteq> [])"
| "truthy (PList vs) = (vs \<noteq> [])"
| "truthy (PDict kvs) = (kvs \<noteq> [])"

text \<open>Lists and dicts cannot be dict keys: \<^verbatim>\<open>v in d\<close> raises TypeError for them.\<close>

fun hashable :: "pyval \<Rightarrow> bool" where
  "hashable (PList vs) = False"
| "hashable (PDict kvs) = False"
| "hashable v = True"

text \<open>\<^verbatim>\<open>d.get(k)\<close>: only a dict has the method; a missing key gives None.\<close>

fun dict_get :: "pyval \<Rightarrow> string \<Rightarrow> error + pyval" where
  "dict_get (PDict kvs) k = Inr (case map_of kvs k of None \<Rightarrow> PNone | Some v \<Rightarrow> v)"
| "dict_get v k = Inl AttributeError"

text \<open>
  \<^verbatim>\<open>d[k]\<close> with a string \<open>k\<close>: KeyError when a dict lacks the key; None, booleans and
  integers cannot be subscripted, strings and lists take integer indices only.
\<close>

fun subscript :: "pyval \<Rightarrow> string \<Rightarrow> error + pyval" where
  "subscript (PDict kvs) k = (case map_of kvs k of None \<Rightarrow> Inl KeyError | Some v \<Rightarrow> Inr v)"
| "subscript v k = Inl TypeError"

text \<open>\<^verbatim>\<open>d.items()\<close>: only a dict has the method.\<close>

fun dict_items :: "pyval \<Rightarrow> error + (string \<times> pyval) list" where
  "dict_items (PDict kvs) = Inr kvs"
| "dict_items v = Inl AttributeError"

section \<open>Entity records\<close>

record Player =
  position :: pyval
  inventory :: pyval
  stats :: pyval

record Room =
  messages :: pyval
  door :: pyval
  fight :: pyval
  paths :: pyval

record Item =
  description :: pyval
  damage :: pyval

record Nonplayer =
  health :: pyval
  attack :: pyval
  points :: pyval

text \<open>
  The constructors read their fields with \<^verbatim>\<open>data.get\<close>; the first call already raises
  AttributeError when \<open>data\<close> is not a dict.
\<close>

definition Player_init :: "pyval \<Rightarrow> error + Player" where
  "Player_init data =
     (case dict_get data ''position'' of Inl e \<Rightarrow> Inl e | Inr v1 \<Rightarrow>
      (case dict_get data ''inventory'' of Inl e \<Rightarrow> Inl e | Inr v2 \<Rightarrow>
      (case dict_get data ''stats'' of Inl e \<Rightarrow> Inl e | Inr v3 \<Rightarrow>
        Inr \<lparr>position = v1, inventory = v2, stats = v3\<rparr>)))"

definition Player_save :: "Player \<Rightarrow> pyval" where
  "Player_save self =
     PDict [(''position'', position self), (''inventory'', inventory self),
            (''stats'', stats self)]"

definition Room_init :: "pyval \<Rightarrow> error + Room" where
  "Room_init data =
     (case dict_get data ''messages'' of Inl e \<Rightarrow> Inl e | Inr v1 \<Rightarrow>
      (case dict_get data ''door'' of Inl e \<Rightarrow> Inl e | Inr v2 \<Rightarrow>
      (case dict_get data ''fight'' of Inl e \<Rightarrow> Inl e | Inr v3 \<Rightarrow>
      (case dict_get data ''paths'' of Inl e \<Rightarrow> Inl e | Inr v4 \<Rightarrow>
        Inr \<lparr>messages = v1, door = v2, fight = v3, paths = v4\<rparr>))))"

definition Room_save :: "Room \<Rightarrow> pyval" where
  "Room_save self =
     PDict [(''messages'', messages self), (''door'', door self),
            (''fight'', fight self), (''paths'', paths self)]"

definition Item_init :: "pyval \<Rightarrow> error + Item" where
  "Item_init data =
     (case dict_get data ''description'' of Inl e \<Rightarrow> Inl e | Inr v1 \<Rightarrow>
      (case dict_get data ''damage'' of Inl e \<Rightarrow> Inl e | Inr v2 \<Rightarrow>
        Inr \<lparr>description = v1, damage = v2\<rparr>))"

definition Item_save :: "Item \<Rightarrow> pyval" where
  "Item_save self =
     PDict [(''description'', description self), (''damage'', damage self)]"

definition Nonplayer_init :: "pyval \<Rightarrow> error + Nonplayer" where
  "Nonplayer_init data =
     (case dict_get data ''health'' of Inl e \<Rightarrow> Inl e | Inr v1 \<Rightarrow>
      (case dict_get data ''attack'' of Inl e \<Rightarrow> Inl e | Inr v2 \<Rightarrow>
      (case dict_get data ''points'' of Inl e \<Rightarrow> Inl e | Inr v3 \<Rightarrow>
        Inr \<lparr>health = v1, attack = v2, points = v3\<rparr>)))"

definition Nonplayer_save :: "Nonplayer \<Rightarrow> pyval" where
  "Nonplayer_save self =
     PDict [(''health'', health self), (''attack'', attack self),
            (''points'', points self)]"

section \<open>The graph of the minimap\<close>

text \<open>
  \<^verbatim>\<open>nx.Graph\<close> is an undirected graph kept as a dict from each node to the dict of its
  neighbours, both in insertion order. \<^verbatim>\<open>add_edges_from\<close> adds the two end points when
  they are new and enters each end point among the neighbours of the other; an edge given
  twice is kept once, and an edge from a node to itself is kept as a loop.
  \<^verbatim>\<open>G.edges(n)\<close> lists \<open>(n, m)\<close> for each neighbour \<open>m\<close> of the node \<open>n\<close>.
\<close>

type_synonym 'a graph = "('a \<times> 'a list) list"

definition nx_add_node :: "'a \<Rightarrow> 'a graph \<Rightarrow> 'a graph" where
  "nx_add_node n g = (if map_of g n = None then g @ [(n, [])] else g)"

definition nx_add_nodes_from :: "'a list \<Rightarrow> 'a graph \<Rightarrow> 'a graph" where
  "nx_add_nodes_from ns g = foldl (\<lambda>h n. nx_add_node n h) g ns"

definition nx_add_nbr :: "'a \<Rightarrow> 'a \<Rightarrow> 'a graph \<Rightarrow> 'a graph" where
  "nx_add_nbr u v g =
     map (\<lambda>(n, nbrs). if n = u then (n, if v \<in> set nbrs then nbrs else nbrs @ [v])
                       else (n, nbrs)) g"

definition nx_add_edge :: "'a \<times> 'a \<Rightarrow> 'a graph \<Rightarrow> 'a graph" where
  "nx_add_edge e g =
     nx_add_nbr (snd e) (fst e) (nx_add_nbr (fst e) (snd e)
       (nx_add_node (snd e) (nx_add_node (fst e) g)))"

definition nx_add_edges_from :: "('a \<times> 'a) list \<Rightarrow> 'a graph \<Rightarrow> 'a graph" where
  "nx_add_edges_from es g = foldl (\<lambda>h e. nx_add_edge e h) g es"

definition nx_edges :: "'a graph \<Rightarrow> 'a \<Rightarrow> error + ('a \<times> 'a) list" where
  "nx_edges g n =
     (case map_of g n of None \<Rightarrow> Inl NetworkXError
      | Some nbrs \<Rightarrow> Inr (map (\<lambda>m. (n, m)) nbrs))"

section \<open>The minimap builder\<close>

record Point =
  px :: int
  py :: int

type_synonym origin_dict = "(string \<times> Point) list"

text \<open>
  \<^verbatim>\<open>Map._adjust_minimap_origins\<close>. The result is the updated \<open>origins\<close> dict and the edge;
  the empty tuple is \<open>None\<close>. \<open>nodes\<close> has the room names as its keys at this point, so a
  destination that is not a string is never among them: the lookup \<^verbatim>\<open>nodes[dest]\<close>
  raises KeyError for it (TypeError already at \<^verbatim>\<open>dest not in origins\<close> when it is not
  hashable).
\<close>

definition adjust_minimap_origins ::
  "Room \<Rightarrow> string \<Rightarrow> origin_dict \<Rightarrow> string \<Rightarrow> (string \<times> nat) list
     \<Rightarrow> error + (origin_dict \<times> (nat \<times> nat) option)" where
  "adjust_minimap_origins room direction origins name nodes =
     (case subscript (paths room) direction of
        Inl e \<Rightarrow> Inl e
      | Inr dest \<Rightarrow>
          if truthy dest then
            (let origins1 = (if map_of origins name = None
                             then AList.update name \<lparr>px = 0, py = 0\<rparr> origins
                             else origins)
             in if \<not> hashable dest then Inl TypeError
                else
                  (case dest of
                     PStr d \<Rightarrow>
                       (let origins2 = (if map_of origins1 d = None
                                        then AList.update d \<lparr>px = 0, py = 0\<rparr> origins1
                                        else origins1)
                        in case map_of origins2 name of
                             None \<Rightarrow> Inl KeyError
                           | Some p \<Rightarrow>
                               (let x = px p; y = py p;
                                    y = (if direction = ''up'' then y - 1 else y);
                                    y = (if direction = ''down'' then y + 1 else y);
                                    x = (if direction = ''left'' then x - 1 else x);
                                    x = (if direction = ''right'' then x + 1 else x);
                                    origins3 = AList.update d \<lparr>px = x, py = y\<rparr> origins2
                                in case map_of nodes name of
                                     None \<Rightarrow> Inl KeyError
                                   | Some a \<Rightarrow>
                                       (case map_of nodes d of
                                          None \<Rightarrow> Inl KeyError
                                        | Some b \<Rightarrow> Inr (origins3, Some (a, b)))))
                   | _ \<Rightarrow> Inl KeyError))
          else Inr (origins, None))"

text \<open>The inner loop of \<^verbatim>\<open>Map._construct_minimap\<close>, over the directions of one room.\<close>

fun construct_directions ::
  "Room \<Rightarrow> string \<Rightarrow> (string \<times> nat) list \<Rightarrow> string list
     \<Rightarrow> origin_dict \<times> (nat \<times> nat) option list
     \<Rightarrow> error + (origin_dict \<times> (nat \<times> nat) option list)" where
  "construct_directions room name nodes [] st = Inr st"
| "construct_directions room name nodes (direction # ds) st =
     (case adjust_minimap_origins room direction (fst st) name nodes of
        Inl e \<Rightarrow> Inl e
      | Inr r \<Rightarrow> construct_directions room name nodes ds (fst r, snd st @ [snd r]))"

text \<open>The outer loop, over \<^verbatim>\<open>rooms.items()\<close>.\<close>

fun construct_rooms ::
  "(string \<times> nat) list \<Rightarrow> (string \<times> Room) list
     \<Rightarrow> origin_dict \<times> (nat \<times> nat) option list
     \<Rightarrow> error + (origin_dict \<times> (nat \<times> nat) option list)" where
  "construct_rooms nodes [] st = Inr st"
| "construct_rooms nodes (nr # rest) st =
     (case construct_directions (snd nr) (fst nr) nodes
             [''up'', ''down'', ''left'', ''right''] st of
        Inl e \<Rightarrow> Inl e
      | Inr st' \<Rightarrow> construct_rooms nodes rest st')"

text \<open>\<^verbatim>\<open>filter(lambda edge: edge, edges)\<close> keeps the tuples that are not empty.\<close>

fun nonempty_edges :: "(nat \<times> nat) option list \<Rightarrow> (nat \<times> nat) list" where
  "nonempty_edges [] = []"
| "nonempty_edges (None # es) = nonempty_edges es"
| "nonempty_edges (Some e # es) = e # nonempty_edges es"

definition construct_minimap ::
  "nat graph \<Rightarrow> (string \<times> nat) list \<Rightarrow> (string \<times> Room) list
     \<Rightarrow> error + (origin_dict \<times> nat graph)" where
  "construct_minimap minimap nodes rooms =
     (case construct_rooms nodes rooms ([], []) of
        Inl e \<Rightarrow> Inl e
      | Inr st \<Rightarrow> Inr (fst st, nx_add_edges_from (nonempty_edges (snd st)) minimap))"

text \<open>
  \<^verbatim>\<open>min(values, key=...)\<close> and \<^verbatim>\<open>max(values, key=...)\<close>: ValueError on an empty
  collection, otherwise the first element whose key is least (greatest).
\<close>

fun min_by :: "('a \<Rightarrow> int) \<Rightarrow> 'a list \<Rightarrow> error + 'a" where
  "min_by key [] = Inl ValueError"
| "min_by key (v # vs) = Inr (foldl (\<lambda>best w. if key w < key best then w else best) v vs)"

fun max_by :: "('a \<Rightarrow> int) \<Rightarrow> 'a list \<Rightarrow> error + 'a" where
  "max_by key [] = Inl ValueError"
| "max_by key (v # vs) = Inr (foldl (\<lambda>best w. if key best < key w then w else best) v vs)"

text \<open>
  Lines 127 to 135 of \<^verbatim>\<open>Map.__init__\<close>: the least x and y, and the shift of every
  origin when one of them is negative. Each value of \<open>origins\<close> is a Point object of its
  own (\<^verbatim>\<open>_adjust_minimap_origins\<close> makes a new one at every assignment), so the in-place
  \<^verbatim>\<open>origin.x += abs(dx)\<close> changes each entry once.
\<close>

definition normalize_origins :: "origin_dict \<Rightarrow> error + origin_dict" where
  "normalize_origins origins =
     (case min_by px (map snd origins) of
        Inl e \<Rightarrow> Inl e
      | Inr mx \<Rightarrow>
          (case min_by py (map snd origins) of
             Inl e \<Rightarrow> Inl e
           | Inr my \<Rightarrow>
               (let dx = px mx; dy = py my;
                    origins1 = (if dx < 0
                                then map (\<lambda>(n, p). (n, p\<lparr>px := px p + \<bar>dx\<bar>\<rparr>)) origins
                                else origins);
                    origins2 = (if dy < 0
                                then map (\<lambda>(n, p). (n, p\<lparr>py := py p + \<bar>dy\<bar>\<rparr>)) origins1
                                else origins1)
                in Inr origins2)))"

record node_info =
  node_id :: "int option"
  edges :: "int list"

type_synonym room_map_dict = "(string \<times> node_info) list"

text \<open>
  Lines 141 to 144: the first loop over \<^verbatim>\<open>origins.items()\<close>. The dict \<open>nodes\<close> has
  the room names as keys and receives the provisional ids as further keys; the two kinds of
  key are kept apart here, the names in the association list \<open>nodes\<close> and the provisional
  ids in the map \<open>remap\<close>.
\<close>

fun assign_node_ids ::
  "int \<Rightarrow> (string \<times> nat) list \<Rightarrow> origin_dict \<Rightarrow> (nat \<rightharpoonup> int) \<times> room_map_dict
     \<Rightarrow> error + ((nat \<rightharpoonup> int) \<times> room_map_dict)" where
  "assign_node_ids width nodes [] st = Inr st"
| "assign_node_ids width nodes (no # rest) st =
     (let nid = px (snd no) + py (snd no) * width
      in case map_of nodes (fst no) of
           None \<Rightarrow> Inl KeyError
         | Some i \<Rightarrow>
             (case map_of (snd st) (fst no) of
                None \<Rightarrow> Inl KeyError
              | Some info \<Rightarrow>
                  assign_node_ids width nodes rest
                    ((fst st)(i \<mapsto> nid),
                     AList.update (fst no) (info\<lparr>node_id := Some nid\<rparr>) (snd st))))"

text \<open>Line 147, for the edges of one room: \<^verbatim>\<open>room_map[name]["edges"].append(nodes[edge[1]])\<close>.\<close>

fun append_edges ::
  "(nat \<rightharpoonup> int) \<Rightarrow> string \<Rightarrow> (nat \<times> nat) list \<Rightarrow> room_map_dict
     \<Rightarrow> error + room_map_dict" where
  "append_edges remap name [] rm = Inr rm"
| "append_edges remap name (e # es) rm =
     (case map_of rm name of
        None \<Rightarrow> Inl KeyError
      | Some info \<Rightarrow>
          (case remap (snd e) of
             None \<Rightarrow> Inl KeyError
           | Some f \<Rightarrow>
               append_edges remap name es
                 (AList.update name (info\<lparr>edges := edges info @ [f]\<rparr>) rm)))"

text \<open>Lines 145 to 147: the second loop over \<^verbatim>\<open>origins.items()\<close>.\<close>

fun collect_edges ::
  "nat graph \<Rightarrow> (string \<times> nat) list \<Rightarrow> (nat \<rightharpoonup> int) \<Rightarrow> origin_dict \<Rightarrow> room_map_dict
     \<Rightarrow> error + room_map_dict" where
  "collect_edges minimap nodes remap [] rm = Inr rm"
| "collect_edges minimap nodes remap (no # rest) rm =
     (case map_of nodes (fst no) of
        None \<Rightarrow> Inl KeyError
      | Some i \<Rightarrow>
          (case nx_edges minimap i of
             Inl e \<Rightarrow> Inl e
           | Inr es \<Rightarrow>
               (case append_edges remap (fst no) es rm of
                  Inl e \<Rightarrow> Inl e
                | Inr rm' \<Rightarrow> collect_edges minimap nodes remap rest rm')))"

record Map =
  Map_origins :: origin_dict
  Map_room_map :: room_map_dict

text \<open>
  \<^verbatim>\<open>Map.__init__\<close> up to line 147: everything but the window set-up and the first
  drawing. \<open>rooms\<close> is \<^verbatim>\<open>game.rooms\<close>.
\<close>

definition Map_build :: "(string \<times> Room) list \<Rightarrow> error + Map" where
  "Map_build rooms =
     (let nodes = zip (map fst rooms) [0..<length rooms];
          minimap0 = nx_add_nodes_from (map snd nodes) []
      in case construct_minimap minimap0 nodes rooms of
           Inl e \<Rightarrow> Inl e
         | Inr om \<Rightarrow>
             (case normalize_origins (fst om) of
                Inl e \<Rightarrow> Inl e
              | Inr origins \<Rightarrow>
                  (case max_by px (map snd origins) of
                     Inl e \<Rightarrow> Inl e
                   | Inr w \<Rightarrow>
                       (let width = px w + 1;
                            room_map0 = map (\<lambda>(room, p). (room, \<lparr>node_id = None, edges = []\<rparr>))
                                          origins
                        in case assign_node_ids width nodes origins (Map.empty, room_map0) of
                             Inl e \<Rightarrow> Inl e
                           | Inr st \<Rightarrow>
                               (case collect_edges (snd om) nodes (fst st) origins (snd st) of
                                  Inl e \<Rightarrow> Inl e
                                | Inr rm \<Rightarrow>
                                    Inr \<lparr>Map_origins = origins, Map_room_map = rm\<rparr>)))))"

section \<open>The minimap renderer\<close>

datatype color = Blue | Red

text \<open>\<^verbatim>\<open>xs.index(v)\<close>: the first position of \<open>v\<close>, ValueError when it is not in the list.\<close>

fun index_of :: "'a list \<Rightarrow> 'a \<Rightarrow> error + nat" where
  "index_of [] v = Inl ValueError"
| "index_of (x # xs) v =
     (if x = v then Inr 0
      else case index_of xs v of Inl e \<Rightarrow> Inl e | Inr i \<Rightarrow> Inr (Suc i))"

text \<open>
  What \<^verbatim>\<open>Map.show\<close> hands to the drawing calls: the graph, the position and the colour
  of each node (colours in the order of the graph's nodes) and the labels.
\<close>

record drawing =
  draw_graph :: "int option graph"
  draw_positions :: "(int option \<times> int \<times> int) list"
  draw_colors :: "color list"
  draw_labels :: "(int option \<times> string) list"

text \<open>The dict comprehension for \<open>positions\<close>, with the lookup \<^verbatim>\<open>self.room_map[room]\<close>.\<close>

fun show_positions ::
  "room_map_dict \<Rightarrow> int \<Rightarrow> origin_dict \<Rightarrow> (int option \<times> int \<times> int) list
     \<Rightarrow> error + (int option \<times> int \<times> int) list" where
  "show_positions rm max_y [] acc = Inr acc"
| "show_positions rm max_y (ro # rest) acc =
     (case map_of rm (fst ro) of
        None \<Rightarrow> Inl KeyError
      | Some info \<Rightarrow>
          show_positions rm max_y rest
            (AList.update (node_id info) (px (snd ro), \<bar>py (snd ro) - max_y\<bar>) acc))"

text \<open>
  The dict comprehension for \<open>labels\<close>: from node id to room name, a later room with the
  same node id taking the place of an earlier one.
\<close>

definition show_labels :: "Map \<Rightarrow> (int option \<times> string) list" where
  "show_labels self =
     foldl (\<lambda>acc ri. AList.update (node_id (snd ri)) (fst ri) acc) [] (Map_room_map self)"

text \<open>
  \<^verbatim>\<open>Map.show\<close>, with the player's \<open>position\<close> field as an argument in place of the
  back-reference to the game. \<^verbatim>\<open>add_nodes_from\<close> raises ValueError for the node None.
  The drawing calls themselves and the label offset are left to the plotting library.
\<close>

definition Map_show :: "Map \<Rightarrow> pyval \<Rightarrow> error + drawing" where
  "Map_show self pos =
     (let labels = show_labels self
      in case max_by py (map snd (Map_origins self)) of
           Inl e \<Rightarrow> Inl e
         | Inr m \<Rightarrow>
             (case show_positions (Map_room_map self) (py m) (Map_origins self) [] of
                Inl e \<Rightarrow> Inl e
              | Inr positions \<Rightarrow>
                  (let color_map = map (\<lambda>l. Blue) labels
                   in case subscript pos ''location'' of
                        Inl e \<Rightarrow> Inl e
                      | Inr loc \<Rightarrow>
                          (case index_of (map (\<lambda>l. PStr (snd l)) labels) loc of
                             Inl e \<Rightarrow> Inl e
                           | Inr i \<Rightarrow>
                               (let color_map = color_map[i := Red];
                                    ids = map (\<lambda>ri. node_id (snd ri)) (Map_room_map self)
                                in if None \<in> set ids then Inl ValueError
                                   else
                                     Inr \<lparr>draw_graph =
                                            nx_add_edges_from
                                              (concat (map (\<lambda>ri. map (\<lambda>e. (node_id (snd ri), Some e))
                                                                  (edges (snd ri)))
                                                         (Map_room_map self)))
                                              (nx_add_nodes_from ids []),
                                          draw_positions = positions,
                                          draw_colors = color_map,
                                          draw_labels = labels\<rparr>)))))"

text \<open>
  \<^verbatim>\<open>Map.__init__\<close>: the build, then \<^verbatim>\<open>_setup_window\<close> (window-system calls only) and
  the first \<^verbatim>\<open>show\<close>, whose exception ends the construction.
\<close>

definition Map_init :: "Player \<Rightarrow> (string \<times> Room) list \<Rightarrow> error + Map" where
  "Map_init pl rooms =
     (case Map_build rooms of
        Inl e \<Rightarrow> Inl e
      | Inr m \<Rightarrow> (case Map_show m (position pl) of Inl e \<Rightarrow> Inl e | Inr d \<Rightarrow> Inr m))"

section \<open>The game\<close>

record Game =
  Game_data :: pyval
  Game_player :: Player
  Game_rooms :: "(string \<times> Room) list"
  Game_items :: "(string \<times> Item) list"
  Game_npc :: "(string \<times> Nonplayer) list"
  Game_room_map :: Map

text \<open>A dict comprehension \<^verbatim>\<open>{name: C(v) for name, v in d.items()}\<close>.\<close>

fun init_all :: "(pyval \<Rightarrow> error + 'a) \<Rightarrow> (string \<times> pyval) list \<Rightarrow> error + (string \<times> 'a) list" where
  "init_all f [] = Inr []"
| "init_all f (kv # rest) =
     (case f (snd kv) of
        Inl e \<Rightarrow> Inl e
      | Inr a \<Rightarrow>
          (case init_all f rest of Inl e \<Rightarrow> Inl e | Inr as \<Rightarrow> Inr ((fst kv, a) # as)))"

definition Game_init :: "pyval \<Rightarrow> error + Game" where
  "Game_init data =
     (case subscript data ''player'' of Inl e \<Rightarrow> Inl e | Inr pd \<Rightarrow>
      (case Player_init pd of Inl e \<Rightarrow> Inl e | Inr pl \<Rightarrow>
      (case dict_get data ''rooms'' of Inl e \<Rightarrow> Inl e | Inr rd \<Rightarrow>
      (case dict_items rd of Inl e \<Rightarrow> Inl e | Inr ritems \<Rightarrow>
      (case init_all Room_init ritems of Inl e \<Rightarrow> Inl e | Inr rs \<Rightarrow>
      (case dict_get data ''items'' of Inl e \<Rightarrow> Inl e | Inr idata \<Rightarrow>
      (case dict_items idata of Inl e \<Rightarrow> Inl e | Inr iitems \<Rightarrow>
      (case init_all Item_init iitems of Inl e \<Rightarrow> Inl e | Inr its \<Rightarrow>
      (case dict_get data ''npc'' of Inl e \<Rightarrow> Inl e | Inr nd \<Rightarrow>
      (case dict_items nd of Inl e \<Rightarrow> Inl e | Inr nitems \<Rightarrow>
      (case init_all Nonplayer_init nitems of Inl e \<Rightarrow> Inl e | Inr ns \<Rightarrow>
      (case Map_init pl rs of Inl e \<Rightarrow> Inl e | Inr m \<Rightarrow>
        Inr \<lparr>Game_data = data, Game_player = pl, Game_rooms = rs, Game_items = its,
             Game_npc = ns, Game_room_map = m\<rparr>))))))))))))"

definition Game_save :: "Game \<Rightarrow> pyval" where
  "Game_save self =
     PDict [(''player'', Player_save (Game_player self)),
            (''rooms'', PDict (map (\<lambda>(name, room). (name, Room_save room)) (Game_rooms self))),
            (''items'', PDict (map (\<lambda>(name, item). (name, Item_save item)) (Game_items self))),
            (''npc'', PDict (map (\<lambda>(name, npc). (name, Nonplayer_save npc)) (Game_npc self)))]"

section \<open>The validator\<close>

text \<open>
  \<^verbatim>\<open>saveload.py\<close>. A run is the list of printed lines together with the exception that
  ended it, if one did.
\<close>

definition DIRECTIONS :: "string list" where
  "DIRECTIONS = [''north'', ''south'', ''east'', ''west'']"

definition ITEMDATA :: "string list" where
  "ITEMDATA = [''holds'']"

text \<open>
  \<^verbatim>\<open>k in v\<close> for a string \<open>k\<close>: a key of a dict, a substring of a string, an element
  of a list; None, booleans and integers are not iterable.
\<close>

fun py_in :: "string \<Rightarrow> pyval \<Rightarrow> error + bool" where
  "py_in k (PDict kvs) = Inr (map_of kvs k \<noteq> None)"
| "py_in k (PStr s) = Inr (sublist k s)"
| "py_in k (PList vs) = Inr (PStr k \<in> set vs)"
| "py_in k v = Inl TypeError"

text \<open>Statements run one after the other; an exception ends the run.\<close>

fun run_all :: "('a \<Rightarrow> string list \<times> error option) \<Rightarrow> 'a list \<Rightarrow> string list \<times> error option" where
  "run_all f [] = ([], None)"
| "run_all f (x # xs) =
     (case snd (f x) of
        Some e \<Rightarrow> f x
      | None \<Rightarrow> (fst (f x) @ fst (run_all f xs), snd (run_all f xs)))"

text \<open>\<^verbatim>\<open>_path\<close>. The room names, the keys of \<open>rooms\<close>, are strings.\<close>

definition path :: "(string \<times> pyval) list \<Rightarrow> string \<Rightarrow> string \<Rightarrow> string list \<times> error option" where
  "path rooms name direction =
     (case map_of rooms name of
        None \<Rightarrow> ([], Some KeyError)
      | Some room \<Rightarrow>
          (case py_in direction room of
             Inl e \<Rightarrow> ([], Some e)
           | Inr present \<Rightarrow>
               if \<not> present
               then ([name @ '' does not have '' @ direction @ '' as a key.''], None)
               else
                 (case subscript room direction of
                    Inl e \<Rightarrow> ([], Some e)
                  | Inr other \<Rightarrow>
                      if other = PNone
                      then ([''There is nothing '' @ direction @ '' of '' @ name @ ''.''], None)
                      else if \<not> hashable other then ([], Some TypeError)
                      else if (case other of PStr s \<Rightarrow> map_of rooms s = None | _ \<Rightarrow> True)
                      then ([''Going '' @ direction @ '' from '' @ name
                               @ '' will lead to an error.''], None)
                      else
                        (case other of
                           PStr s \<Rightarrow> ([s @ '' is '' @ direction @ '' of '' @ name @ ''.''], None)
                         | _ \<Rightarrow> ([], Some TypeError)))))"

text \<open>
  \<^verbatim>\<open>_item\<close>. \<open>fmt\<close> is the text an f-string gives for a value that is not a string
  (Python's \<^verbatim>\<open>str\<close>).
\<close>

definition item ::
  "(pyval \<Rightarrow> string) \<Rightarrow> (string \<times> pyval) list \<Rightarrow> string \<Rightarrow> string \<Rightarrow> string list \<times> error option" where
  "item fmt items name idata =
     (case map_of items name of
        None \<Rightarrow> ([], Some KeyError)
      | Some it \<Rightarrow>
          (case py_in idata it of
             Inl e \<Rightarrow> ([], Some e)
           | Inr present \<Rightarrow>
               if \<not> present
               then ([name @ '' does not have '' @ idata @ '' as a key.''], None)
               else
                 (case subscript it idata of
                    Inl e \<Rightarrow> ([], Some e)
                  | Inr other \<Rightarrow>
                      if other = PNone
                      then ([''There are no items in '' @ name @ ''.''], None)
                      else ([(case other of PStr s \<Rightarrow> s | _ \<Rightarrow> fmt other)
                               @ '' is in '' @ name @ ''.''], None))))"

text \<open>The loop of \<^verbatim>\<open>main\<close> over the rooms and the directions (lines 66 to 68).\<close>

definition check_rooms :: "(string \<times> pyval) list \<Rightarrow> string list \<times> error option" where
  "check_rooms rooms =
     run_all (\<lambda>name. run_all (\<lambda>direction. path rooms name direction) DIRECTIONS)
       (map fst rooms)"

text \<open>The loop of \<^verbatim>\<open>main\<close> over the items (lines 71 to 73).\<close>

definition check_items :: "(pyval \<Rightarrow> string) \<Rightarrow> (string \<times> pyval) list \<Rightarrow> string list \<times> error option" where
  "check_items fmt items =
     run_all (\<lambda>name2. run_all (\<lambda>idata. item fmt items name2 idata) ITEMDATA)
       (map fst items)"

text \<open>
  \<^verbatim>\<open>main\<close>, with the loaded document as the argument \<open>data\<close> in place of the file read
  by \<^verbatim>\<open>_load\<close>; \<open>pp\<close> gives the lines that \<^verbatim>\<open>pprint\<close> prints for it.
\<close>

definition main ::
  "(pyval \<Rightarrow> string list) \<Rightarrow> (pyval \<Rightarrow> string) \<Rightarrow> pyval \<Rightarrow> string list \<times> error option" where
  "main pp fmt data =
     (let out = [''Data that was loaded:''] @ pp data @ [''Checking room and item list...'']
      in case py_in ''Rooms'' data of
           Inl e \<Rightarrow> (out, Some e)
         | Inr has_rooms \<Rightarrow>
             if \<not> has_rooms then (out @ [''No rooms found.''], None)
             else
               (case py_in ''Items'' data of
                  Inl e \<Rightarrow> (out, Some e)
                | Inr has_items \<Rightarrow>
                    if \<not> has_items then (out @ [''No items found.''], None)
                    else
                      (case subscript data ''Rooms'' of
                         Inl e \<Rightarrow> (out, Some e)
                       | Inr (PDict rooms) \<Rightarrow>
                           (case subscript data ''Items'' of
                              Inl e \<Rightarrow> (out, Some e)
                            | Inr (PDict items) \<Rightarrow>
                                (case snd (check_rooms rooms) of
                                   Some e \<Rightarrow> (out @ fst (check_rooms rooms), Some e)
                                 | None \<Rightarrow>
                                     (out @ fst (check_rooms rooms) @ fst (check_items fmt items),
                                      snd (check_items fmt items)))
                            | Inr v \<Rightarrow> (out @ [''items in data were not proper data.''], None))
                       | Inr v \<Rightarrow> (out @ [''Rooms in data were not proper data.''], None))))"

section \<open>Properties of the entity records\<close>

text \<open>
  Claim C10. Constructing a Player, Room, Item or Nonplayer from a mapping \<open>d\<close> and saving
  it gives a mapping with exactly the fixed keys of that entity, each with the value of
  \<open>d\<close> for the key, or None when \<open>d\<close> lacks it; every other key of \<open>d\<close> is dropped.
  Constructing from a saved mapping gives the record back, so one pass already normalizes.
\<close>

theorem entity_save_fixed_keys:
  "map_sum id Player_save (Player_init (PDict d)) =
     Inr (PDict [(''position'', case map_of d ''position'' of None \<Rightarrow> PNone | Some v \<Rightarrow> v),
                 (''inventory'', case map_of d ''inventory'' of None \<Rightarrow> PNone | Some v \<Rightarrow> v),
                 (''stats'', case map_of d ''stats'' of None \<Rightarrow> PNone | Some v \<Rightarrow> v)])
   \<and> map_sum id Room_save (Room_init (PDict d)) =
     Inr (PDict [(''messages'', case map_of d ''messages'' of None \<Rightarrow> PNone | Some v \<Rightarrow> v),
                 (''door'', case map_of d ''door'' of None \<Rightarrow> PNone | Some v \<Rightarrow> v),
                 (''fight'', case map_of d ''fight'' of None \<Rightarrow> PNone | Some v \<Rightarrow> v),
                 (''paths'', case map_of d ''paths'' of None \<Rightarrow> PNone | Some v \<Rightarrow> v)])
   \<and> map_sum id Item_save (Item_init (PDict d)) =
     Inr (PDict [(''description'', case map_of d ''description'' of None \<Rightarrow> PNone | Some v \<Rightarrow> v),
                 (''damage'', case map_of d ''damage'' of None \<Rightarrow> PNone | Some v \<Rightarrow> v)])
   \<and> map_sum id Nonplayer_save (Nonplayer_init (PDict d)) =
     Inr (PDict [(''health'', case map_of d ''health'' of None \<Rightarrow> PNone | Some v \<Rightarrow> v),
                 (''attack'', case map_of d ''attack'' of None \<Rightarrow> PNone | Some v \<Rightarrow> v),
                 (''points'', case map_of d ''points'' of None \<Rightarrow> PNone | Some v \<Rightarrow> v)])
   \<and> Player_init (Player_save p) = Inr p
   \<and> Room_init (Room_save r) = Inr r
   \<and> Item_init (Item_save i) = Inr i
   \<and> Nonplayer_init (Nonplayer_save n) = Inr n"
  by (simp add: Player_init_def Player_save_def Room_init_def Room_save_def
        Item_init_def Item_save_def Nonplayer_init_def Nonplayer_save_def)

section \<open>One directional exit\<close>

text \<open>
  What a successful call of \<^const>\<open>adjust_minimap_origins\<close> has done: nothing, for an exit
  whose value is false; otherwise the exit names a room \<open>d\<close>, the edge joins the two
  provisional ids, the source has an origin (a fresh one at (0,0) if it had none) and the
  destination has the origin of the source moved by one unit.
\<close>

lemma adjust_Inr_cases:
  assumes "adjust_minimap_origins room direction origins name nodes = Inr (origins', r)"
  shows "(r = None \<and> origins' = origins \<and> (\<exists>dest. subscript (paths room) direction = Inr dest \<and> \<not> truthy dest))
       \<or> (\<exists>d a b src. subscript (paths room) direction = Inr (PStr d) \<and> d \<noteq> []
            \<and> map_of nodes name = Some a \<and> map_of nodes d = Some b \<and> r = Some (a, b)
            \<and> src = (case map_of origins name of None \<Rightarrow> \<lparr>px = 0, py = 0\<rparr> | Some p \<Rightarrow> p)
            \<and> map_of origins' =
                (map_of origins)(name \<mapsto> src,
                   d \<mapsto> \<lparr>px = px src + (if direction = ''right'' then 1 else if direction = ''left'' then - 1 else 0),
                          py = py src + (if direction = ''down'' then 1 else if direction = ''up'' then - 1 else 0)\<rparr>)
            \<and> fst ` set origins' = fst ` set origins \<union> {name, d}
            \<and> (distinct (map fst origins) \<longrightarrow> distinct (map fst origins')))"
proof (cases "subscript (paths room) direction")
  case (Inl e)
  with assms show ?thesis by (simp add: adjust_minimap_origins_def)
next
  case (Inr dest)
  show ?thesis
  proof (cases "truthy dest")
    case False
    with assms Inr show ?thesis by (simp add: adjust_minimap_origins_def)
  next
    case True
    with assms Inr obtain d where d: "dest = PStr d"
      by (cases dest) (auto simp add: adjust_minimap_origins_def Let_def split: if_splits)
    with True have ne: "d \<noteq> []" by simp
    define src where "src = (case map_of origins name of None \<Rightarrow> \<lparr>px = 0, py = 0\<rparr> | Some p \<Rightarrow> p)"
    define o1 where "o1 = (if map_of origins name = None
                             then AList.update name \<lparr>px = 0, py = 0\<rparr> origins else origins)"
    define o2 where "o2 = (if map_of o1 d = None then AList.update d \<lparr>px = 0, py = 0\<rparr> o1 else o1)"
    define tgt where "tgt = \<lparr>px = px src + (if direction = ''right'' then 1 else if direction = ''left'' then - 1 else 0),
                          py = py src + (if direction = ''down'' then 1 else if direction = ''up'' then - 1 else 0)\<rparr>"
    have m1: "map_of o1 = (map_of origins)(name \<mapsto> src)"
      by (auto simp add: o1_def src_def AList.update_conv' map_upd_triv)
    have k1: "fst ` set o1 = fst ` set origins \<union> {name}"
      by (auto simp add: o1_def AList.dom_update map_of_eq_None_iff)
    have d1: "distinct (map fst origins) \<longrightarrow> distinct (map fst o1)"
      by (simp add: o1_def AList.distinct_update)
    have m2: "(map_of o2)(d \<mapsto> tgt) = (map_of o1)(d \<mapsto> tgt)"
      by (simp add: o2_def AList.update_conv')
    have n2: "map_of o2 name = Some src"
      by (cases "name = d") (auto simp add: o2_def m1 AList.update_conv')
    have k2: "fst ` set o2 = fst ` set o1 \<union> {d}"
      by (auto simp add: o2_def AList.dom_update map_of_eq_None_iff)
    have d2: "distinct (map fst o1) \<longrightarrow> distinct (map fst o2)"
      by (simp add: o2_def AList.distinct_update)
    from assms Inr d ne n2 have res:
      "\<exists>a b. map_of nodes name = Some a \<and> map_of nodes d = Some b \<and> r = Some (a, b)
         \<and> origins' = AList.update d tgt o2"
      by (auto simp add: adjust_minimap_origins_def Let_def o1_def o2_def tgt_def
            split: option.splits if_splits)
    then obtain a b where ab: "map_of nodes name = Some a" "map_of nodes d = Some b"
      "r = Some (a, b)" and o': "origins' = AList.update d tgt o2" by blast
    have "map_of origins' = (map_of origins)(name \<mapsto> src, d \<mapsto> tgt)"
      by (simp add: o' AList.update_conv' m2 m1)
    moreover have "fst ` set origins' = fst ` set origins \<union> {name, d}"
      by (auto simp add: o' AList.dom_update k2 k1)
    moreover have "distinct (map fst origins) \<longrightarrow> distinct (map fst origins')"
      using d1 d2 by (simp add: o' AList.distinct_update)
    ultimately show ?thesis
      using Inr d ne ab unfolding src_def tgt_def by blast
  qed
qed

lemma adjust_falsy:
  "subscript (paths room) direction = Inr dest \<Longrightarrow> \<not> truthy dest \<Longrightarrow>
   adjust_minimap_origins room direction origins name nodes = Inr (origins, None)"
  by (simp add: adjust_minimap_origins_def)

lemma adjust_self:
  "subscript (paths room) direction = Inr (PStr name) \<Longrightarrow> name \<noteq> [] \<Longrightarrow>
   map_of nodes name = Some a \<Longrightarrow>
   \<exists>origins'. adjust_minimap_origins room direction origins name nodes
                = Inr (origins', Some (a, a))"
  by (simp add: adjust_minimap_origins_def Let_def AList.update_conv' split: option.splits)

lemma nonempty_edges_append:
  "nonempty_edges (es @ fs) = nonempty_edges es @ nonempty_edges fs"
  by (induction es rule: nonempty_edges.induct) simp_all

text \<open>
  Claim C1, as stated, fails: the last line of the function assigns the destination's
  origin without looking at the one it has. In the room set
  \<open>A: {down: B, right: B}\<close> the exit \<open>down\<close> puts \<open>B\<close> at (0,1), and the later exit
  \<open>right\<close> into the same room moves it to (1,0).
\<close>

theorem later_edge_moves_origin_counterexample:
  "construct_directions
     \<lparr>messages = PNone, door = PNone, fight = PNone,
      paths = PDict [(''up'', PNone), (''down'', PStr ''B''), (''left'', PNone),
                     (''right'', PStr ''B'')]\<rparr>
     ''A'' [(''A'', 0), (''B'', 1)] [''up'', ''down'', ''left''] ([], [])
   = Inr ([(''A'', \<lparr>px = 0, py = 0\<rparr>), (''B'', \<lparr>px = 0, py = 1\<rparr>)],
          [None, Some (0, 1), None])
   \<and> adjust_minimap_origins
     \<lparr>messages = PNone, door = PNone, fight = PNone,
      paths = PDict [(''up'', PNone), (''down'', PStr ''B''), (''left'', PNone),
                     (''right'', PStr ''B'')]\<rparr>
     ''right'' [(''A'', \<lparr>px = 0, py = 0\<rparr>), (''B'', \<lparr>px = 0, py = 1\<rparr>)]
     ''A'' [(''A'', 0), (''B'', 1)]
   = Inr ([(''A'', \<lparr>px = 0, py = 0\<rparr>), (''B'', \<lparr>px = 1, py = 0\<rparr>)], Some (0, 1))"
  by (simp add: adjust_minimap_origins_def)

text \<open>
  Claim C1, amended. Processing a directional edge from the room \<open>name\<close> into a room \<open>d\<close>
  sets the origin of \<open>d\<close> to the origin of \<open>name\<close> (or (0,0) when \<open>name\<close> had none) moved
  by one unit in the direction, whether or not \<open>d\<close> had an origin before: the last
  assignment wins. The origin of every room other than \<open>d\<close> stays as it was.
\<close>

theorem adjust_sets_destination_origin:
  assumes "adjust_minimap_origins room direction origins name nodes = Inr (origins', Some e)"
  shows "\<exists>d src. subscript (paths room) direction = Inr (PStr d)
           \<and> src = (case map_of origins name of None \<Rightarrow> \<lparr>px = 0, py = 0\<rparr> | Some p \<Rightarrow> p)
           \<and> map_of origins' d =
               Some \<lparr>px = px src + (if direction = ''right'' then 1
                                     else if direction = ''left'' then - 1 else 0),
                     py = py src + (if direction = ''down'' then 1
                                     else if direction = ''up'' then - 1 else 0)\<rparr>
           \<and> (name \<noteq> d \<longrightarrow> map_of origins' name = Some src)
           \<and> (\<forall>k. k \<noteq> d \<longrightarrow> k \<noteq> name \<longrightarrow> map_of origins' k = map_of origins k)"
proof -
  from adjust_Inr_cases [OF assms] obtain d a b src where
    d: "subscript (paths room) direction = Inr (PStr d)"
    and src: "src = (case map_of origins name of None \<Rightarrow> \<lparr>px = 0, py = 0\<rparr> | Some p \<Rightarrow> p)"
    and m: "map_of origins' =
                (map_of origins)(name \<mapsto> src,
                   d \<mapsto> \<lparr>px = px src + (if direction = ''right'' then 1 else if direction = ''left'' then - 1 else 0),
                          py = py src + (if direction = ''down'' then 1 else if direction = ''up'' then - 1 else 0)\<rparr>)"
    by blast
  have "map_of origins' d = Some \<lparr>px = px src + (if direction = ''right'' then 1
                                     else if direction = ''left'' then - 1 else 0),
                     py = py src + (if direction = ''down'' then 1
                                     else if direction = ''up'' then - 1 else 0)\<rparr>"
    by (simp add: m)
  moreover have "name \<noteq> d \<longrightarrow> map_of origins' name = Some src"
    by (simp add: m)
  moreover have "\<forall>k. k \<noteq> d \<longrightarrow> k \<noteq> name \<longrightarrow> map_of origins' k = map_of origins k"
    by (simp add: m)
  ultimately show ?thesis using d src by blast
qed

theorem adjust_sets_destination_origin_witness:
  "adjust_minimap_origins
     \<lparr>messages = PNone, door = PNone, fight = PNone,
      paths = PDict [(''up'', PNone), (''down'', PStr ''B''), (''left'', PNone),
                     (''right'', PStr ''B'')]\<rparr>
     ''right'' [(''A'', \<lparr>px = 0, py = 0\<rparr>), (''B'', \<lparr>px = 0, py = 1\<rparr>)]
     ''A'' [(''A'', 0), (''B'', 1)]
   = Inr ([(''A'', \<lparr>px = 0, py = 0\<rparr>), (''B'', \<lparr>px = 1, py = 0\<rparr>)], Some (0, 1))
   \<and> map_of [(''A'', \<lparr>px = 0, py = 0\<rparr>), (''B'', \<lparr>px = 1, py = 0\<rparr>)] ''B''
       = Some \<lparr>px = 1, py = 0\<rparr>"
proof -
  have h: "adjust_minimap_origins
     \<lparr>messages = PNone, door = PNone, fight = PNone,
      paths = PDict [(''up'', PNone), (''down'', PStr ''B''), (''left'', PNone),
                     (''right'', PStr ''B'')]\<rparr>
     ''right'' [(''A'', \<lparr>px = 0, py = 0\<rparr>), (''B'', \<lparr>px = 0, py = 1\<rparr>)]
     ''A'' [(''A'', 0), (''B'', 1)]
   = Inr ([(''A'', \<lparr>px = 0, py = 0\<rparr>), (''B'', \<lparr>px = 1, py = 0\<rparr>)], Some (0, 1))"
    by (simp add: adjust_minimap_origins_def)
  from adjust_sets_destination_origin [OF h] h show ?thesis by simp
qed

text \<open>
  Claim C5, as stated, fails for the exit that names its own room: the value is a
  non-empty string, so the function returns the edge from the room's node to itself, the
  filter keeps it, and the graph has the loop. Here the only room \<open>A\<close> has the exit
  \<open>right: A\<close> and the graph ends with \<open>0\<close> among the neighbours of \<open>0\<close>.
\<close>

theorem self_exit_edge_counterexample:
  "construct_minimap [(0, [])] [(''A'', 0)]
     [(''A'', \<lparr>messages = PNone, door = PNone, fight = PNone,
               paths = PDict [(''up'', PNone), (''down'', PNone), (''left'', PNone),
                              (''right'', PStr ''A'')]\<rparr>)]
   = Inr ([(''A'', \<lparr>px = 1, py = 0\<rparr>)], [(0, [0])])"
  by (simp add: construct_minimap_def adjust_minimap_origins_def nx_add_edges_from_def
        nx_add_edge_def nx_add_node_def nx_add_nbr_def)

text \<open>
  Claim C5, amended. An exit whose value is null (or any other false value) produces no
  edge: the call returns the empty tuple and leaves \<open>origins\<close> alone, and the filter drops
  the empty tuple. An exit that names the room itself produces the edge from the room's
  node to itself.
\<close>

theorem null_exit_no_edge_self_exit_loop:
  "(subscript (paths room) direction = Inr dest \<and> \<not> truthy dest \<longrightarrow>
      adjust_minimap_origins room direction origins name nodes = Inr (origins, None)
      \<and> nonempty_edges (es @ [None]) = nonempty_edges es)
   \<and> (subscript (paths room) direction' = Inr (PStr name) \<and> name \<noteq> []
        \<and> map_of nodes name = Some a \<longrightarrow>
      (\<exists>origins'. adjust_minimap_origins room direction' origins name nodes
                    = Inr (origins', Some (a, a)))
      \<and> nonempty_edges (es @ [Some (a, a)]) = nonempty_edges es @ [(a, a)])"
  using adjust_falsy [of room direction dest origins name nodes]
    adjust_self [of room direction' name nodes a origins]
  by (simp add: nonempty_edges_append)

theorem null_exit_no_edge_self_exit_loop_witness:
  "adjust_minimap_origins
     \<lparr>messages = PNone, door = PNone, fight = PNone,
      paths = PDict [(''up'', PNone), (''down'', PNone), (''left'', PNone),
                     (''right'', PStr ''A'')]\<rparr>
     ''up'' [] ''A'' [(''A'', 0)] = Inr ([], None)
   \<and> (\<exists>origins'. adjust_minimap_origins
     \<lparr>messages = PNone, door = PNone, fight = PNone,
      paths = PDict [(''up'', PNone), (''down'', PNone), (''left'', PNone),
                     (''right'', PStr ''A'')]\<rparr>
     ''right'' [] ''A'' [(''A'', 0)] = Inr (origins', Some (0, 0)))"
  using null_exit_no_edge_self_exit_loop
    [of "\<lparr>messages = PNone, door = PNone, fight = PNone,
      paths = PDict [(''up'', PNone), (''down'', PNone), (''left'', PNone),
                     (''right'', PStr ''A'')]\<rparr>" "''up''" PNone "[]" "''A''" "[(''A'', 0)]"
      "[]" "''right''" 0]
  by simp

section \<open>The reductions and the normalization pass\<close>

text \<open>
  \<^const>\<open>min_by\<close> and \<^const>\<open>max_by\<close> return an element of the collection whose key is the
  least (greatest), and fail exactly on the empty collection.
\<close>

lemma foldl_min_key:
  "foldl (\<lambda>best w. if key w < key best then w else best) v vs \<in> set (v # vs)
   \<and> (\<forall>w\<in>set (v # vs). key (foldl (\<lambda>best w. if key w < key best then w else best) v vs) \<le> (key w :: int))"
proof (induction vs arbitrary: v)
  case Nil
  show ?case by simp
next
  case (Cons u us)
  from Cons [of "if key u < key v then u else v"] show ?case
    by (cases "key u < key v") (simp_all, force+)
qed

lemma foldl_max_key:
  "foldl (\<lambda>best w. if key best < key w then w else best) v vs \<in> set (v # vs)
   \<and> (\<forall>w\<in>set (v # vs). (key w :: int) \<le> key (foldl (\<lambda>best w. if key best < key w then w else best) v vs))"
proof (induction vs arbitrary: v)
  case Nil
  show ?case by simp
next
  case (Cons u us)
  from Cons [of "if key v < key u then u else v"] show ?case
    by (cases "key v < key u") (simp_all, force+)
qed

lemma min_by_Inr:
  "vs \<noteq> [] \<Longrightarrow> \<exists>m. min_by key vs = Inr m \<and> m \<in> set vs \<and> (\<forall>w\<in>set vs. key m \<le> key w)"
  using foldl_min_key [of key] by (cases vs) auto

lemma max_by_Inr:
  "vs \<noteq> [] \<Longrightarrow> \<exists>m. max_by key vs = Inr m \<and> m \<in> set vs \<and> (\<forall>w\<in>set vs. key w \<le> key m)"
  using foldl_max_key [of key] by (cases vs) auto

lemma min_by_Min:
  assumes "min_by key vs = Inr m"
  shows "vs \<noteq> [] \<and> key m = Min (key ` set vs)"
proof -
  from assms have ne: "vs \<noteq> []" by (cases vs) auto
  from min_by_Inr [OF ne, of key] assms
  have "m \<in> set vs" "\<forall>w\<in>set vs. key m \<le> key w" by auto
  then have "Min (key ` set vs) = key m"
    by (intro Min_eqI) auto
  with ne show ?thesis by simp
qed

lemma max_by_Max:
  assumes "max_by key vs = Inr m"
  shows "vs \<noteq> [] \<and> key m = Max (key ` set vs)"
proof -
  from assms have ne: "vs \<noteq> []" by (cases vs) auto
  from max_by_Inr [OF ne, of key] assms
  have "m \<in> set vs" "\<forall>w\<in>set vs. key w \<le> key m" by auto
  then have "Max (key ` set vs) = key m"
    by (intro Max_eqI) auto
  with ne show ?thesis by simp
qed

lemma normalize_origins_Inr:
  assumes "normalize_origins origins = Inr origins'"
  shows "origins \<noteq> []
    \<and> origins' = map (\<lambda>np. (fst np, (snd np)
          \<lparr>px := px (snd np) + (if Min (px ` snd ` set origins) < 0 then \<bar>Min (px ` snd ` set origins)\<bar> else 0),
           py := py (snd np) + (if Min (py ` snd ` set origins) < 0 then \<bar>Min (py ` snd ` set origins)\<bar> else 0)\<rparr>)) origins"
proof -
  from assms obtain mx my where mx: "min_by px (map snd origins) = Inr mx"
    and my: "min_by py (map snd origins) = Inr my"
    by (auto simp add: normalize_origins_def split: sum.splits)
  define dx where "dx = Min (px ` snd ` set origins)"
  define dy where "dy = Min (py ` snd ` set origins)"
  from min_by_Min [OF mx] have ne: "origins \<noteq> []" and
    x: "px mx = dx" by (simp_all add: dx_def)
  from min_by_Min [OF my] have y: "py my = dy" by (simp add: dy_def)
  from assms have "origins' = map (\<lambda>np. (fst np, (snd np)
          \<lparr>px := px (snd np) + (if dx < 0 then \<bar>dx\<bar> else 0),
           py := py (snd np) + (if dy < 0 then \<bar>dy\<bar> else 0)\<rparr>)) origins"
    unfolding normalize_origins_def mx my Let_def
    by (cases "dx < 0"; cases "dy < 0") (auto simp add: x y split_def comp_def)
  with ne show ?thesis unfolding dx_def dy_def by blast
qed

lemma normalize_origins_keys:
  "normalize_origins origins = Inr origins' \<Longrightarrow> map fst origins' = map fst origins"
  by (drule normalize_origins_Inr) (simp add: comp_def)

lemma normalize_origins_min:
  assumes "normalize_origins origins = Inr origins'"
  shows "Min (px ` snd ` set origins') = max 0 (Min (px ` snd ` set origins))
       \<and> Min (py ` snd ` set origins') = max 0 (Min (py ` snd ` set origins))"
proof -
  define sx where "sx = (if Min (px ` snd ` set origins) < 0 then \<bar>Min (px ` snd ` set origins)\<bar> else 0)"
  define sy where "sy = (if Min (py ` snd ` set origins) < 0 then \<bar>Min (py ` snd ` set origins)\<bar> else 0)"
  from normalize_origins_Inr [OF assms] have ne: "origins \<noteq> []"
    and o': "origins' = map (\<lambda>np. (fst np, (snd np)\<lparr>px := px (snd np) + sx, py := py (snd np) + sy\<rparr>)) origins"
    by (simp_all add: sx_def sy_def)
  have ix: "px ` snd ` set origins' = (\<lambda>v. v + sx) ` (px ` snd ` set origins)"
    by (simp add: o' image_image)
  have iy: "py ` snd ` set origins' = (\<lambda>v. v + sy) ` (py ` snd ` set origins)"
    by (simp add: o' image_image)
  have fx: "finite (px ` snd ` set origins)" "px ` snd ` set origins \<noteq> {}"
    using ne by simp_all
  have fy: "finite (py ` snd ` set origins)" "py ` snd ` set origins \<noteq> {}"
    using ne by simp_all
  have "Min ((\<lambda>v. v + sx) ` (px ` snd ` set origins)) = Min (px ` snd ` set origins) + sx"
    using fx by (intro mono_Min_commute [symmetric]) (auto simp add: mono_def)
  moreover have "Min ((\<lambda>v. v + sy) ` (py ` snd ` set origins)) = Min (py ` snd ` set origins) + sy"
    using fy by (intro mono_Min_commute [symmetric]) (auto simp add: mono_def)
  ultimately show ?thesis
    unfolding ix iy by (simp add: sx_def sy_def)
qed

lemma normalize_origins_nonneg:
  assumes "normalize_origins origins = Inr origins'" "np \<in> set origins'"
  shows "0 \<le> px (snd np) \<and> 0 \<le> py (snd np)"
proof -
  from normalize_origins_Inr [OF assms(1)] have ne: "origins' \<noteq> []"
    by simp
  have "Min (px ` snd ` set origins') \<le> px (snd np)" "Min (py ` snd ` set origins') \<le> py (snd np)"
    using assms(2) by simp_all
  with normalize_origins_min [OF assms(1)] show ?thesis by simp
qed

lemma Map_build_Inr:
  assumes "Map_build rooms = Inr m"
  shows "\<exists>raw g w st.
     construct_minimap (nx_add_nodes_from (map snd (zip (map fst rooms) [0..<length rooms])) [])
       (zip (map fst rooms) [0..<length rooms]) rooms = Inr (raw, g)
     \<and> normalize_origins raw = Inr (Map_origins m)
     \<and> max_by px (map snd (Map_origins m)) = Inr w
     \<and> assign_node_ids (px w + 1) (zip (map fst rooms) [0..<length rooms]) (Map_origins m)
          (Map.empty, map (\<lambda>(room, p). (room, \<lparr>node_id = None, edges = []\<rparr>)) (Map_origins m))
         = Inr st
     \<and> collect_edges g (zip (map fst rooms) [0..<length rooms]) (fst st) (Map_origins m) (snd st)
         = Inr (Map_room_map m)"
  using assms unfolding Map_build_def Let_def
  by (auto split: sum.splits)

text \<open>The definitions that evaluate the builder on a concrete room set.\<close>

lemmas build_eval = Map_build_def construct_minimap_def adjust_minimap_origins_def
  normalize_origins_def nx_add_nodes_from_def nx_add_edges_from_def nx_add_edge_def
  nx_add_node_def nx_add_nbr_def nx_edges_def

text \<open>
  Claim C2, as stated, fails: the pass shifts only when the least coordinate is negative.
  In the room set \<open>A: {right: B}, B: {right: A}\<close> the second exit moves \<open>A\<close> from (0,0)
  to (2,0) while \<open>B\<close> stays at (1,0); the least x is 1, nothing is shifted, and the least
  x over the assigned origins after the pass is 1.
\<close>

theorem positive_minimum_counterexample:
  "Map_build
     [(''A'', \<lparr>messages = PNone, door = PNone, fight = PNone,
               paths = PDict [(''up'', PNone), (''down'', PNone), (''left'', PNone),
                              (''right'', PStr ''B'')]\<rparr>),
      (''B'', \<lparr>messages = PNone, door = PNone, fight = PNone,
               paths = PDict [(''up'', PNone), (''down'', PNone), (''left'', PNone),
                              (''right'', PStr ''A'')]\<rparr>)]
   = Inr \<lparr>Map_origins = [(''A'', \<lparr>px = 2, py = 0\<rparr>), (''B'', \<lparr>px = 1, py = 0\<rparr>)],
          Map_room_map = [(''A'', \<lparr>node_id = Some 2, edges = [1]\<rparr>),
                          (''B'', \<lparr>node_id = Some 1, edges = [2]\<rparr>)]\<rparr>
   \<and> Min (px ` snd ` set [(''A'', \<lparr>px = 2, py = 0\<rparr>), (''B'', \<lparr>px = 1, py = 0\<rparr>)]) = 1"
  by (simp add: build_eval upt_rec)

text \<open>
  Claim C2, amended. After the normalization pass every assigned coordinate is
  non-negative, and the least x (the least y) over the assigned origins is the greater of 0
  and the least x (the least y) before the pass: it is 0 whenever the least coordinate
  before the pass was at most 0, and is left where it was when that was positive.
\<close>

theorem normalized_origins_nonnegative:
  assumes "Map_build rooms = Inr m"
  shows "(\<forall>np\<in>set (Map_origins m). 0 \<le> px (snd np) \<and> 0 \<le> py (snd np))
    \<and> (\<exists>raw g. construct_minimap
           (nx_add_nodes_from (map snd (zip (map fst rooms) [0..<length rooms])) [])
           (zip (map fst rooms) [0..<length rooms]) rooms = Inr (raw, g)
         \<and> Min (px ` snd ` set (Map_origins m)) = max 0 (Min (px ` snd ` set raw))
         \<and> Min (py ` snd ` set (Map_origins m)) = max 0 (Min (py ` snd ` set raw)))"
proof -
  from Map_build_Inr [OF assms] obtain raw g where
    c: "construct_minimap
           (nx_add_nodes_from (map snd (zip (map fst rooms) [0..<length rooms])) [])
           (zip (map fst rooms) [0..<length rooms]) rooms = Inr (raw, g)"
    and n: "normalize_origins raw = Inr (Map_origins m)" by blast
  from normalize_origins_nonneg [OF n]
  have "\<forall>np\<in>set (Map_origins m). 0 \<le> px (snd np) \<and> 0 \<le> py (snd np)" by blast
  with c normalize_origins_min [OF n] show ?thesis by blast
qed

theorem normalized_origins_nonnegative_witness:
  "Map_build
     [(''A'', \<lparr>messages = PNone, door = PNone, fight = PNone,
               paths = PDict [(''up'', PStr ''B''), (''down'', PNone), (''left'', PNone),
                              (''right'', PNone)]\<rparr>),
      (''B'', \<lparr>messages = PNone, door = PNone, fight = PNone,
               paths = PDict [(''up'', PNone), (''down'', PStr ''A''), (''left'', PNone),
                              (''right'', PNone)]\<rparr>)]
   = Inr \<lparr>Map_origins = [(''A'', \<lparr>px = 0, py = 1\<rparr>), (''B'', \<lparr>px = 0, py = 0\<rparr>)],
          Map_room_map = [(''A'', \<lparr>node_id = Some 1, edges = [0]\<rparr>),
                          (''B'', \<lparr>node_id = Some 0, edges = [1]\<rparr>)]\<rparr>
   \<and> list_all (\<lambda>np. 0 \<le> px (snd np) \<and> 0 \<le> py (snd np))
         [(''A'', \<lparr>px = 0, py = 1\<rparr>), (''B'', \<lparr>px = 0, py = 0\<rparr>)]"
proof -
  have h: "Map_build
     [(''A'', \<lparr>messages = PNone, door = PNone, fight = PNone,
               paths = PDict [(''up'', PStr ''B''), (''down'', PNone), (''left'', PNone),
                              (''right'', PNone)]\<rparr>),
      (''B'', \<lparr>messages = PNone, door = PNone, fight = PNone,
               paths = PDict [(''up'', PNone), (''down'', PStr ''A''), (''left'', PNone),
                              (''right'', PNone)]\<rparr>)]
   = Inr \<lparr>Map_origins = [(''A'', \<lparr>px = 0, py = 1\<rparr>), (''B'', \<lparr>px = 0, py = 0\<rparr>)],
          Map_room_map = [(''A'', \<lparr>node_id = Some 1, edges = [0]\<rparr>),
                          (''B'', \<lparr>node_id = Some 0, edges = [1]\<rparr>)]\<rparr>"
    by (simp add: build_eval upt_rec)
  from normalized_origins_nonnegative [OF h] h show ?thesis by simp
qed

section \<open>Room sets without origins\<close>

lemma construct_directions_falsy:
  "\<forall>dir\<in>set ds. \<exists>dest. subscript (paths room) dir = Inr dest \<and> \<not> truthy dest \<Longrightarrow>
   construct_directions room name nodes ds st = Inr (fst st, snd st @ replicate (length ds) None)"
proof (induction ds arbitrary: st)
  case Nil
  show ?case by simp
next
  case (Cons dir ds)
  from Cons.prems obtain dest where "subscript (paths room) dir = Inr dest" "\<not> truthy dest"
    by auto
  then have "adjust_minimap_origins room dir (fst st) name nodes = Inr (fst st, None)"
    by (rule adjust_falsy)
  with Cons.IH [of "(fst st, snd st @ [None])"] Cons.prems show ?case
    by (simp add: replicate_app_Cons_same)
qed

lemma construct_rooms_falsy:
  "\<forall>nr\<in>set rooms. \<forall>dir\<in>set [''up'', ''down'', ''left'', ''right''].
      \<exists>dest. subscript (paths (snd nr)) dir = Inr dest \<and> \<not> truthy dest \<Longrightarrow>
   construct_rooms nodes rooms st = Inr (fst st, snd st @ replicate (4 * length rooms) None)"
proof (induction rooms arbitrary: st)
  case Nil
  show ?case by simp
next
  case (Cons nr rooms)
  from Cons.prems have "\<forall>dir\<in>set [''up'', ''down'', ''left'', ''right''].
      \<exists>dest. subscript (paths (snd nr)) dir = Inr dest \<and> \<not> truthy dest"
    by (metis list.set_intros(1))
  from construct_directions_falsy [OF this, of "fst nr" nodes st] have d:
    "construct_directions (snd nr) (fst nr) nodes [''up'', ''down'', ''left'', ''right''] st
       = Inr (fst st, snd st @ replicate 4 None)"
    by (simp del: construct_directions.simps replicate.simps replicate_Suc)
  from Cons.prems have "\<forall>nr\<in>set rooms. \<forall>dir\<in>set [''up'', ''down'', ''left'', ''right''].
      \<exists>dest. subscript (paths (snd nr)) dir = Inr dest \<and> \<not> truthy dest"
    by (metis list.set_intros(2))
  from Cons.IH [OF this, of "(fst st, snd st @ replicate 4 None)"] have r:
    "construct_rooms nodes rooms (fst st, snd st @ replicate 4 None)
     = Inr (fst st, (snd st @ replicate 4 None) @ replicate (4 * length rooms) None)"
    by simp
  have "replicate 4 None @ replicate (4 * length rooms) None
      = replicate (4 * length (nr # rooms)) (None :: (nat \<times> nat) option)"
    by (simp add: replicate_add [symmetric] del: replicate_Suc replicate.simps)
  with d r show ?case
    by (simp del: construct_directions.simps replicate.simps replicate_Suc)
qed

lemma nonempty_edges_replicate_None: "nonempty_edges (replicate n None) = []"
  by (induction n) simp_all

lemma Map_build_no_origins:
  assumes "construct_minimap (nx_add_nodes_from (map snd (zip (map fst rooms) [0..<length rooms])) [])
       (zip (map fst rooms) [0..<length rooms]) rooms = Inr ([], g)"
  shows "Map_build rooms = Inl ValueError"
  using assms by (simp add: Map_build_def Let_def normalize_origins_def)

text \<open>
  Claim C6. When the layout loop ends with no origin at all, as it does when every
  directional exit of every room is null, the construction of the map raises ValueError at
  the reduction over the empty collection, and no empty minimap is produced. When there is
  at least one origin, the reductions for the least x, the least y and the greatest x all
  return a value.
\<close>

theorem empty_origins_reduction_fails:
  "(construct_minimap (nx_add_nodes_from (map snd (zip (map fst rooms) [0..<length rooms])) [])
       (zip (map fst rooms) [0..<length rooms]) rooms = Inr ([], g)
      \<longrightarrow> Map_build rooms = Inl ValueError)
   \<and> ((\<forall>nr\<in>set rooms. \<forall>dir\<in>set [''up'', ''down'', ''left'', ''right''].
          \<exists>dest. subscript (paths (snd nr)) dir = Inr dest \<and> \<not> truthy dest)
      \<longrightarrow> Map_build rooms = Inl ValueError)
   \<and> (construct_minimap (nx_add_nodes_from (map snd (zip (map fst rooms) [0..<length rooms])) [])
       (zip (map fst rooms) [0..<length rooms]) rooms = Inr (origins, g) \<and> origins \<noteq> []
      \<longrightarrow> (\<exists>a b os c. min_by px (map snd origins) = Inr a \<and> min_by py (map snd origins) = Inr b
             \<and> normalize_origins origins = Inr os \<and> max_by px (map snd os) = Inr c))"
proof (intro conjI impI)
  assume "construct_minimap (nx_add_nodes_from (map snd (zip (map fst rooms) [0..<length rooms])) [])
       (zip (map fst rooms) [0..<length rooms]) rooms = Inr ([], g)"
  then show "Map_build rooms = Inl ValueError" by (rule Map_build_no_origins)
next
  assume "\<forall>nr\<in>set rooms. \<forall>dir\<in>set [''up'', ''down'', ''left'', ''right''].
          \<exists>dest. subscript (paths (snd nr)) dir = Inr dest \<and> \<not> truthy dest"
  then have "construct_rooms (zip (map fst rooms) [0..<length rooms]) rooms ([], [])
     = Inr ([], replicate (4 * length rooms) None)"
    using construct_rooms_falsy [of rooms "zip (map fst rooms) [0..<length rooms]" "([], [])"]
    by simp
  then have "construct_minimap (nx_add_nodes_from (map snd (zip (map fst rooms) [0..<length rooms])) [])
       (zip (map fst rooms) [0..<length rooms]) rooms
     = Inr ([], nx_add_nodes_from (map snd (zip (map fst rooms) [0..<length rooms])) [])"
    by (simp add: construct_minimap_def nonempty_edges_replicate_None nx_add_edges_from_def)
  then show "Map_build rooms = Inl ValueError" by (rule Map_build_no_origins)
next
  assume "construct_minimap (nx_add_nodes_from (map snd (zip (map fst rooms) [0..<length rooms])) [])
       (zip (map fst rooms) [0..<length rooms]) rooms = Inr (origins, g) \<and> origins \<noteq> []"
  then have ne: "map snd origins \<noteq> []" by simp
  from min_by_Inr [OF ne, of px] obtain a where a: "min_by px (map snd origins) = Inr a" by blast
  from min_by_Inr [OF ne, of py] obtain b where b: "min_by py (map snd origins) = Inr b" by blast
  from a b obtain os where os: "normalize_origins origins = Inr os"
    by (simp add: normalize_origins_def Let_def)
  from normalize_origins_keys [OF os] ne have "map snd os \<noteq> []"
    by (metis map_is_Nil_conv)
  from max_by_Inr [OF this, of px] obtain c where "max_by px (map snd os) = Inr c" by blast
  with a b os show "\<exists>a b os c. min_by px (map snd origins) = Inr a \<and> min_by py (map snd origins) = Inr b
             \<and> normalize_origins origins = Inr os \<and> max_by px (map snd os) = Inr c"
    by blast
qed

theorem empty_origins_reduction_fails_witness:
  "Map_build [(''A'', \<lparr>messages = PNone, door = PNone, fight = PNone,
               paths = PDict [(''up'', PNone), (''down'', PNone), (''left'', PNone),
                              (''right'', PNone)]\<rparr>)] = Inl ValueError
   \<and> (\<exists>a b os c. min_by px (map snd [(''A'', \<lparr>px = 0, py = 0\<rparr>), (''B'', \<lparr>px = 0, py = - 1\<rparr>)]) = Inr a
         \<and> min_by py (map snd [(''A'', \<lparr>px = 0, py = 0\<rparr>), (''B'', \<lparr>px = 0, py = - 1\<rparr>)]) = Inr b
         \<and> normalize_origins [(''A'', \<lparr>px = 0, py = 0\<rparr>), (''B'', \<lparr>px = 0, py = - 1\<rparr>)] = Inr os
         \<and> max_by px (map snd os) = Inr c)"
proof -
  have h1: "\<forall>nr\<in>set [(''A'', \<lparr>messages = PNone, door = PNone, fight = PNone,
               paths = PDict [(''up'', PNone), (''down'', PNone), (''left'', PNone),
                              (''right'', PNone)]\<rparr>)]. \<forall>dir\<in>set [''up'', ''down'', ''left'', ''right''].
          \<exists>dest. subscript (paths (snd nr)) dir = Inr dest \<and> \<not> truthy dest"
    by simp
  have h2: "construct_minimap
       (nx_add_nodes_from (map snd (zip (map fst
          [(''A'', \<lparr>messages = PNone, door = PNone, fight = PNone,
               paths = PDict [(''up'', PStr ''B''), (''down'', PNone), (''left'', PNone),
                              (''right'', PNone)]\<rparr>),
           (''B'', \<lparr>messages = PNone, door = PNone, fight = PNone,
               paths = PDict [(''up'', PNone), (''down'', PNone), (''left'', PNone),
                              (''right'', PNone)]\<rparr>)]) [0..<length
          [(''A'', \<lparr>messages = PNone, door = PNone, fight = PNone,
               paths = PDict [(''up'', PStr ''B''), (''down'', PNone), (''left'', PNone),
                              (''right'', PNone)]\<rparr>),
           (''B'', \<lparr>messages = PNone, door = PNone, fight = PNone,
               paths = PDict [(''up'', PNone), (''down'', PNone), (''left'', PNone),
                              (''right'', PNone)]\<rparr>)]])) [])
       (zip (map fst
          [(''A'', \<lparr>messages = PNone, door = PNone, fight = PNone,
               paths = PDict [(''up'', PStr ''B''), (''down'', PNone), (''left'', PNone),
                              (''right'', PNone)]\<rparr>),
           (''B'', \<lparr>messages = PNone, door = PNone, fight = PNone,
               paths = PDict [(''up'', PNone), (''down'', PNone), (''left'', PNone),
                              (''right'', PNone)]\<rparr>)]) [0..<length
          [(''A'', \<lparr>messages = PNone, door = PNone, fight = PNone,
               paths = PDict [(''up'', PStr ''B''), (''down'', PNone), (''left'', PNone),
                              (''right'', PNone)]\<rparr>),
           (''B'', \<lparr>messages = PNone, door = PNone, fight = PNone,
               paths = PDict [(''up'', PNone), (''down'', PNone), (''left'', PNone),
                              (''right'', PNone)]\<rparr>)]])
          [(''A'', \<lparr>messages = PNone, door = PNone, fight = PNone,
               paths = PDict [(''up'', PStr ''B''), (''down'', PNone), (''left'', PNone),
                              (''right'', PNone)]\<rparr>),
           (''B'', \<lparr>messages = PNone, door = PNone, fight = PNone,
               paths = PDict [(''up'', PNone), (''down'', PNone), (''left'', PNone),
                              (''right'', PNone)]\<rparr>)]
       = Inr ([(''A'', \<lparr>px = 0, py = 0\<rparr>), (''B'', \<lparr>px = 0, py = - 1\<rparr>)], [(0, [1]), (1, [0])])
     \<and> [(''A'', \<lparr>px = 0, py = 0\<rparr>), (''B'', \<lparr>px = 0, py = - 1\<rparr>)] \<noteq> []"
    by (simp add: build_eval upt_rec)
  from empty_origins_reduction_fails [THEN conjunct2, THEN conjunct1, THEN mp, OF h1]
    empty_origins_reduction_fails [THEN conjunct2, THEN conjunct2, THEN mp, OF h2]
  show ?thesis by blast
qed

section \<open>The save snapshot\<close>

text \<open>
  Loading is \<^const>\<open>Game_init\<close> on the loaded document, saving is \<^const>\<open>Game_save\<close>.
  A document is well-formed when the game can be constructed from it.
\<close>

lemma init_all_save:
  assumes "\<And>x. f (sv x) = Inr x"
  shows "init_all f (map (\<lambda>(n, x). (n, sv x)) xs) = Inr xs"
  by (induction xs) (auto simp add: assms)

lemma Game_init_Inr:
  assumes "Game_init D = Inr g"
  shows "Map_init (Game_player g) (Game_rooms g) = Inr (Game_room_map g)"
  using assms unfolding Game_init_def
  by (auto split: sum.splits)

lemmas entity_roundtrip =
  Player_init_def Player_save_def Room_init_def Room_save_def
  Item_init_def Item_save_def Nonplayer_init_def Nonplayer_save_def

lemma Game_init_save:
  assumes "Map_init (Game_player g) (Game_rooms g) = Inr (Game_room_map g)"
  shows "Game_init (Game_save g) = Inr (g\<lparr>Game_data := Game_save g\<rparr>)"
proof -
  have p: "Player_init (Player_save (Game_player g)) = Inr (Game_player g)"
    by (simp add: entity_roundtrip)
  have r: "init_all Room_init (map (\<lambda>(n, x). (n, Room_save x)) (Game_rooms g)) = Inr (Game_rooms g)"
    by (rule init_all_save) (simp add: entity_roundtrip)
  have i: "init_all Item_init (map (\<lambda>(n, x). (n, Item_save x)) (Game_items g)) = Inr (Game_items g)"
    by (rule init_all_save) (simp add: entity_roundtrip)
  have n: "init_all Nonplayer_init (map (\<lambda>(n, x). (n, Nonplayer_save x)) (Game_npc g)) = Inr (Game_npc g)"
    by (rule init_all_save) (simp add: entity_roundtrip)
  define D' where "D' = Game_save g"
  have l1: "subscript D' ''player'' = Inr (Player_save (Game_player g))"
    by (simp add: D'_def Game_save_def)
  have l2: "dict_get D' ''rooms''
      = Inr (PDict (map (\<lambda>(n, x). (n, Room_save x)) (Game_rooms g)))"
    by (simp add: D'_def Game_save_def)
  have l3: "dict_get D' ''items''
      = Inr (PDict (map (\<lambda>(n, x). (n, Item_save x)) (Game_items g)))"
    by (simp add: D'_def Game_save_def)
  have l4: "dict_get D' ''npc''
      = Inr (PDict (map (\<lambda>(n, x). (n, Nonplayer_save x)) (Game_npc g)))"
    by (simp add: D'_def Game_save_def)
  have "Game_init D' = Inr (g\<lparr>Game_data := D'\<rparr>)"
    unfolding Game_init_def by (simp add: l1 l2 l3 l4 p r i n assms)
  then show ?thesis by (simp add: D'_def)
qed

text \<open>
  Claim C7. When a game \<open>g\<close> has been loaded from a document, loading its snapshot succeeds
  and saving the game so obtained gives the same snapshot again:
  \<open>save (load (save (load D))) = save (load D)\<close>. The snapshot does not depend on the
  minimap held by the game.
\<close>

theorem save_load_idempotent:
  assumes "Game_init D = Inr g"
  shows "\<exists>g'. Game_init (Game_save g) = Inr g' \<and> Game_save g' = Game_save g
           \<and> Game_save (g\<lparr>Game_room_map := m\<rparr>) = Game_save g"
proof -
  from Game_init_save [OF Game_init_Inr [OF assms]]
  have "Game_init (Game_save g) = Inr (g\<lparr>Game_data := Game_save g\<rparr>)" .
  moreover have "Game_save (g\<lparr>Game_data := Game_save g\<rparr>) = Game_save g"
    by (simp add: Game_save_def)
  moreover have "Game_save (g\<lparr>Game_room_map := m\<rparr>) = Game_save g"
    by (simp add: Game_save_def)
  ultimately show ?thesis by blast
qed

theorem save_load_idempotent_witness:
  "\<exists>g. Game_init
     (PDict [(''player'', PDict [(''position'', PDict [(''location'', PStr ''A'')])]),
             (''rooms'', PDict
                [(''A'', PDict [(''paths'', PDict [(''up'', PNone), (''down'', PNone),
                                                  (''left'', PNone), (''right'', PStr ''B'')]),
                               (''smell'', PStr ''damp'')]),
                 (''B'', PDict [(''paths'', PDict [(''up'', PNone), (''down'', PNone),
                                                  (''left'', PStr ''A''), (''right'', PNone)])])]),
             (''items'', PDict [(''sword'', PDict [(''damage'', PInt 3)])]),
             (''npc'', PDict [])]) = Inr g
     \<and> (\<exists>g'. Game_init (Game_save g) = Inr g' \<and> Game_save g' = Game_save g)"
proof -
  have "\<exists>g. Game_init
     (PDict [(''player'', PDict [(''position'', PDict [(''location'', PStr ''A'')])]),
             (''rooms'', PDict
                [(''A'', PDict [(''paths'', PDict [(''up'', PNone), (''down'', PNone),
                                                  (''left'', PNone), (''right'', PStr ''B'')]),
                               (''smell'', PStr ''damp'')]),
                 (''B'', PDict [(''paths'', PDict [(''up'', PNone), (''down'', PNone),
                                                  (''left'', PStr ''A''), (''right'', PNone)])])]),
             (''items'', PDict [(''sword'', PDict [(''damage'', PInt 3)])]),
             (''npc'', PDict [])]) = Inr g"
    by (simp add: Game_init_def entity_roundtrip Map_init_def Map_show_def show_labels_def
          build_eval upt_rec)
  then obtain g where g: "Game_init
     (PDict [(''player'', PDict [(''position'', PDict [(''location'', PStr ''A'')])]),
             (''rooms'', PDict
                [(''A'', PDict [(''paths'', PDict [(''up'', PNone), (''down'', PNone),
                                                  (''left'', PNone), (''right'', PStr ''B'')]),
                               (''smell'', PStr ''damp'')]),
                 (''B'', PDict [(''paths'', PDict [(''up'', PNone), (''down'', PNone),
                                                  (''left'', PStr ''A''), (''right'', PNone)])])]),
             (''items'', PDict [(''sword'', PDict [(''damage'', PInt 3)])]),
             (''npc'', PDict [])]) = Inr g" by blast
  from save_load_idempotent [OF g] g show ?thesis by blast
qed

section \<open>The validator's report\<close>

lemma run_all_no_error:
  "\<forall>x\<in>set xs. snd (f x) = None \<Longrightarrow>
   run_all f xs = (concat (map (\<lambda>x. fst (f x)) xs), None)"
  by (induction xs) simp_all

lemma in_concat_map: "x \<in> set xs \<Longrightarrow> y \<in> set (f x) \<Longrightarrow> y \<in> set (concat (map f xs))"
  by auto

lemma path_soft:
  assumes "map_of rooms name = Some (PDict kvs)"
    and "\<forall>v. map_of kvs direction = Some v \<longrightarrow> hashable v"
  shows "\<exists>line. path rooms name direction = ([line], None)"
  using assms
  by (cases "map_of kvs direction") (auto simp add: path_def split: pyval.splits)

lemma path_dangling:
  assumes "map_of rooms name = Some (PDict kvs)"
    and "map_of kvs direction = Some (PStr d)" and "map_of rooms d = None"
  shows "path rooms name direction
       = ([''Going '' @ direction @ '' from '' @ name @ '' will lead to an error.''], None)"
  using assms by (simp add: path_def)

text \<open>
  Claim C8, as stated, fails in its example: the validator looks at the keys
  \<open>north\<close>, \<open>south\<close>, \<open>east\<close> and \<open>west\<close> only. For the rooms \<open>A: {right: Ghost}\<close> it
  prints four lines about missing keys and never the line
  \<open>Going right from A will lead to an error.\<close>
\<close>

theorem validator_compass_directions_only_counterexample:
  "main (\<lambda>data. []) (\<lambda>v. [])
     (PDict [(''Rooms'', PDict [(''A'', PDict [(''right'', PStr ''Ghost'')])]),
             (''Items'', PDict [])])
   = ([''Data that was loaded:'', ''Checking room and item list...'',
       ''A does not have north as a key.'', ''A does not have south as a key.'',
       ''A does not have east as a key.'', ''A does not have west as a key.''], None)"
  by (simp add: main_def check_rooms_def check_items_def path_def DIRECTIONS_def)

text \<open>
  Claim C8, amended. When every room is a mapping whose exits to the north, south, east
  and west are null or hashable values, and the room names are distinct, the loop over the
  rooms ends without an exception and prints one line for each room and each of the four
  directions; for every room \<open>name\<close> whose exit in one of these four directions names a
  room that does not exist, the line \<open>Going <direction> from <name> will lead to an error.\<close>
  is among them.
\<close>

theorem validator_soft_errors:
  assumes wf: "\<forall>nr\<in>set rooms. \<exists>kvs. snd nr = PDict kvs
                 \<and> (\<forall>dir\<in>set DIRECTIONS. \<forall>v. map_of kvs dir = Some v \<longrightarrow> hashable v)"
    and dist: "distinct (map fst rooms)"
  shows "snd (check_rooms rooms) = None
     \<and> length (fst (check_rooms rooms)) = 4 * length rooms
     \<and> (\<forall>name kvs dir d. (name, PDict kvs) \<in> set rooms \<and> dir \<in> set DIRECTIONS
            \<and> map_of kvs dir = Some (PStr d) \<and> map_of rooms d = None
          \<longrightarrow> (''Going '' @ dir @ '' from '' @ name @ '' will lead to an error.'')
                \<in> set (fst (check_rooms rooms)))"
proof -
  have one: "\<exists>line. path rooms name dir = ([line], None)"
    if "name \<in> set (map fst rooms)" "dir \<in> set DIRECTIONS" for name dir
  proof -
    from that(1) obtain room where r: "map_of rooms name = Some room"
      by (metis map_of_eq_None_iff not_Some_eq set_map)
    then have "(name, room) \<in> set rooms" by (rule map_of_SomeD)
    with wf that(2) obtain kvs where "room = PDict kvs"
      "\<forall>v. map_of kvs dir = Some v \<longrightarrow> hashable v" by fastforce
    with r show ?thesis by (auto intro: path_soft)
  qed
  have inner: "run_all (\<lambda>direction. path rooms name direction) DIRECTIONS
       = (concat (map (\<lambda>dir. fst (path rooms name dir)) DIRECTIONS), None)"
    if "name \<in> set (map fst rooms)" for name
  proof (rule run_all_no_error, rule ballI)
    fix dir assume "dir \<in> set DIRECTIONS"
    from one [OF that this] show "snd (path rooms name dir) = None" by auto
  qed
  have len: "length (concat (map (\<lambda>dir. fst (path rooms name dir)) DIRECTIONS)) = 4"
    if "name \<in> set (map fst rooms)" for name
  proof -
    have "\<forall>dir\<in>set DIRECTIONS. length (fst (path rooms name dir)) = 1"
      using one [OF that] by fastforce
    then show ?thesis by (simp add: DIRECTIONS_def)
  qed
  have outer: "check_rooms rooms
     = (concat (map (\<lambda>name. concat (map (\<lambda>dir. fst (path rooms name dir)) DIRECTIONS))
          (map fst rooms)), None)"
  proof -
    have "check_rooms rooms = (concat (map (\<lambda>name. fst (run_all (\<lambda>direction. path rooms name direction) DIRECTIONS))
          (map fst rooms)), None)"
      unfolding check_rooms_def
      by (rule run_all_no_error) (simp add: inner)
    also have "concat (map (\<lambda>name. fst (run_all (\<lambda>direction. path rooms name direction) DIRECTIONS))
          (map fst rooms))
       = concat (map (\<lambda>name. concat (map (\<lambda>dir. fst (path rooms name dir)) DIRECTIONS))
          (map fst rooms))"
      by (rule arg_cong [where f = concat], rule map_cong) (simp_all add: inner)
    finally show ?thesis .
  qed
  have c2: "length (fst (check_rooms rooms)) = 4 * length rooms"
  proof -
    define F where "F = (\<lambda>name. concat (map (\<lambda>dir. fst (path rooms name dir)) DIRECTIONS))"
    have "map (\<lambda>name. length (F name)) (map fst rooms) = map (\<lambda>name. 4) (map fst rooms)"
      by (rule map_cong) (simp_all add: len F_def)
    then have "sum_list (map (\<lambda>name. length (F name)) (map fst rooms))
        = sum_list (map (\<lambda>name. 4) (map fst rooms))"
      by (rule arg_cong)
    also have "\<dots> = 4 * length rooms"
      by (induction rooms) simp_all
    finally have "sum_list (map (\<lambda>name. length (F name)) (map fst rooms)) = 4 * length rooms" .
    moreover have "length (fst (check_rooms rooms))
        = sum_list (map (\<lambda>name. length (F name)) (map fst rooms))"
      unfolding outer F_def [symmetric] by (simp add: length_concat comp_def)
    ultimately show ?thesis by simp
  qed
  have "(''Going '' @ dir @ '' from '' @ name @ '' will lead to an error.'')
                \<in> set (fst (check_rooms rooms))"
    if h: "(name, PDict kvs) \<in> set rooms" "dir \<in> set DIRECTIONS"
      "map_of kvs dir = Some (PStr d)" "map_of rooms d = None" for name kvs dir d
  proof -
    define L where "L = ''Going '' @ dir @ '' from '' @ name @ '' will lead to an error.''"
    from dist h(1) have "map_of rooms name = Some (PDict kvs)" by simp
    from path_dangling [OF this h(3) h(4)]
    have "L \<in> set (fst (path rooms name dir))"
      by (simp add: L_def)
    then have "L \<in> set (concat (map (\<lambda>dir. fst (path rooms name dir)) DIRECTIONS))"
      by (rule in_concat_map [OF h(2)])
    moreover have "name \<in> set (map fst rooms)" using h(1) by force
    ultimately have "L \<in> set (concat (map (\<lambda>name. concat (map (\<lambda>dir. fst (path rooms name dir)) DIRECTIONS))
          (map fst rooms)))"
      by (rule in_concat_map [rotated])
    then show ?thesis unfolding outer fst_conv L_def .
  qed
  then have c3: "\<forall>name kvs dir d. (name, PDict kvs) \<in> set rooms \<and> dir \<in> set DIRECTIONS
            \<and> map_of kvs dir = Some (PStr d) \<and> map_of rooms d = None
          \<longrightarrow> (''Going '' @ dir @ '' from '' @ name @ '' will lead to an error.'')
                \<in> set (fst (check_rooms rooms))"
    by blast
  have c1: "snd (check_rooms rooms) = None" unfolding outer by (rule snd_conv)
  from c1 c2 c3 show ?thesis by blast
qed

theorem validator_soft_errors_witness:
  "snd (check_rooms [(''A'', PDict [(''north'', PStr ''Ghost''), (''south'', PNone)])]) = None
   \<and> length (fst (check_rooms [(''A'', PDict [(''north'', PStr ''Ghost''), (''south'', PNone)])])) = 4
   \<and> ''Going north from A will lead to an error.''
        \<in> set (fst (check_rooms [(''A'', PDict [(''north'', PStr ''Ghost''), (''south'', PNone)])]))"
proof -
  have wf: "\<forall>nr\<in>set [(''A'', PDict [(''north'', PStr ''Ghost''), (''south'', PNone)])].
      \<exists>kvs. snd nr = PDict kvs
        \<and> (\<forall>dir\<in>set DIRECTIONS. \<forall>v. map_of kvs dir = Some v \<longrightarrow> hashable v)"
    by (simp add: DIRECTIONS_def)
  have dist: "distinct (map fst [(''A'', PDict [(''north'', PStr ''Ghost''), (''south'', PNone)])])"
    by simp
  note t = validator_soft_errors [OF wf dist]
  from t have a: "snd (check_rooms [(''A'', PDict [(''north'', PStr ''Ghost''), (''south'', PNone)])]) = None"
    by blast
  from t have b: "length (fst (check_rooms [(''A'', PDict [(''north'', PStr ''Ghost''), (''south'', PNone)])])) = 4"
    by simp
  from t have "(''A'', PDict [(''north'', PStr ''Ghost''), (''south'', PNone)])
        \<in> set [(''A'', PDict [(''north'', PStr ''Ghost''), (''south'', PNone)])]
      \<and> ''north'' \<in> set DIRECTIONS
      \<and> map_of [(''north'', PStr ''Ghost''), (''south'', PNone)] ''north'' = Some (PStr ''Ghost'')
      \<and> map_of [(''A'', PDict [(''north'', PStr ''Ghost''), (''south'', PNone)])] ''Ghost'' = None
     \<longrightarrow> (''Going '' @ ''north'' @ '' from '' @ ''A'' @ '' will lead to an error.'')
        \<in> set (fst (check_rooms [(''A'', PDict [(''north'', PStr ''Ghost''), (''south'', PNone)])]))"
    by blast
  then have c: "''Going north from A will lead to an error.''
        \<in> set (fst (check_rooms [(''A'', PDict [(''north'', PStr ''Ghost''), (''south'', PNone)])]))"
    by (simp add: DIRECTIONS_def)
  from a b c show ?thesis by blast
qed

section \<open>Node ids and neighbour lists\<close>

subsection \<open>Provisional ids\<close>

lemma map_of_zip_upt:
  "map_of (zip xs [k..<k + length xs]) a = Some i \<Longrightarrow>
   k \<le> i \<and> i < k + length xs \<and> xs ! (i - k) = a"
proof (induction xs arbitrary: k)
  case Nil
  then show ?case by simp
next
  case (Cons x xs)
  have u: "[k..<k + length (x # xs)] = k # [Suc k..<Suc k + length xs]"
    by (subst upt_rec) simp
  note p = Cons.prems [unfolded u]
  show ?case
  proof (cases "x = a")
    case True
    with p show ?thesis by simp
  next
    case False
    with p have "map_of (zip xs [Suc k..<Suc k + length xs]) a = Some i"
      by simp
    from Cons.IH [OF this] have i: "Suc k \<le> i" "i < Suc k + length xs"
      "xs ! (i - Suc k) = a" by simp_all
    from i(1) have "i - k = Suc (i - Suc k)" by arith
    with i show ?thesis by simp
  qed
qed

lemma nodes_inj:
  assumes "map_of (zip xs [0..<length xs]) a = Some i"
    and "map_of (zip xs [0..<length xs]) b = Some i"
  shows "a = b"
  using map_of_zip_upt [of xs 0 a i] map_of_zip_upt [of xs 0 b i] assms by simp

subsection \<open>The graph\<close>

lemma map_of_nx_add_nbr:
  "map_of (nx_add_nbr u v g) n
   = map_option (\<lambda>nbrs. if n = u then (if v \<in> set nbrs then nbrs else nbrs @ [v]) else nbrs)
       (map_of g n)"
  by (induction g) (auto simp add: nx_add_nbr_def)

lemma map_of_nx_add_node:
  "map_of (nx_add_node n g) m = (if map_of g m = None \<and> m = n then Some [] else map_of g m)"
  by (auto simp add: nx_add_node_def map_add_def split: option.splits)

lemma nx_add_node_grows:
  "map_of g n = Some nbrs \<Longrightarrow> map_of (nx_add_node m g) n = Some nbrs"
  by (simp add: map_of_nx_add_node)

lemma nx_add_node_in: "\<exists>nbrs. map_of (nx_add_node m g) m = Some nbrs"
  by (cases "map_of g m") (simp_all add: map_of_nx_add_node)

lemma nx_add_nbr_grows:
  "map_of g n = Some nbrs \<Longrightarrow>
   \<exists>nbrs'. map_of (nx_add_nbr u v g) n = Some nbrs' \<and> set nbrs \<subseteq> set nbrs'"
  by (auto simp add: map_of_nx_add_nbr)

lemma nx_add_nbr_has:
  "map_of g u = Some nbrs \<Longrightarrow>
   \<exists>nbrs'. map_of (nx_add_nbr u v g) u = Some nbrs' \<and> v \<in> set nbrs'"
  by (auto simp add: map_of_nx_add_nbr)

lemma nx_add_edge_grows:
  assumes "map_of g n = Some nbrs"
  shows "\<exists>nbrs'. map_of (nx_add_edge e g) n = Some nbrs' \<and> set nbrs \<subseteq> set nbrs'"
proof -
  from assms have "map_of (nx_add_node (snd e) (nx_add_node (fst e) g)) n = Some nbrs"
    by (intro nx_add_node_grows)
  from nx_add_nbr_grows [OF this, of "fst e" "snd e"] obtain n1 where
    n1: "map_of (nx_add_nbr (fst e) (snd e) (nx_add_node (snd e) (nx_add_node (fst e) g))) n = Some n1"
    "set nbrs \<subseteq> set n1" by blast
  from nx_add_nbr_grows [OF n1(1), of "snd e" "fst e"] n1(2) show ?thesis
    unfolding nx_add_edge_def by blast
qed

lemma nx_add_edge_has:
  "(\<exists>nbrs. map_of (nx_add_edge (u, v) g) u = Some nbrs \<and> v \<in> set nbrs)
   \<and> (\<exists>nbrs. map_of (nx_add_edge (u, v) g) v = Some nbrs \<and> u \<in> set nbrs)"
proof -
  define g1 where "g1 = nx_add_node v (nx_add_node u g)"
  define g2 where "g2 = nx_add_nbr u v g1"
  have e: "nx_add_edge (u, v) g = nx_add_nbr v u g2"
    by (simp add: nx_add_edge_def g1_def g2_def)
  from nx_add_node_in [of u g] obtain a where "map_of (nx_add_node u g) u = Some a" by blast
  then have "map_of g1 u = Some a" unfolding g1_def by (rule nx_add_node_grows)
  from nx_add_nbr_has [OF this, of v] obtain a' where a': "map_of g2 u = Some a'" "v \<in> set a'"
    unfolding g2_def by blast
  from nx_add_nbr_grows [OF a'(1), of v u] a'(2)
  have 1: "\<exists>nbrs. map_of (nx_add_edge (u, v) g) u = Some nbrs \<and> v \<in> set nbrs"
    unfolding e by blast
  from nx_add_node_in [of v "nx_add_node u g"] obtain b where "map_of g1 v = Some b"
    unfolding g1_def by blast
  from nx_add_nbr_grows [OF this, of u v] obtain b' where "map_of g2 v = Some b'"
    unfolding g2_def by blast
  from nx_add_nbr_has [OF this, of u]
  have 2: "\<exists>nbrs. map_of (nx_add_edge (u, v) g) v = Some nbrs \<and> u \<in> set nbrs"
    unfolding e by blast
  from 1 2 show ?thesis by blast
qed

lemma nx_add_edges_from_grows:
  assumes "map_of g n = Some nbrs" "w \<in> set nbrs"
  shows "\<exists>nbrs'. map_of (nx_add_edges_from es g) n = Some nbrs' \<and> w \<in> set nbrs'"
  using assms
proof (induction es arbitrary: g nbrs)
  case Nil
  then show ?case by (simp add: nx_add_edges_from_def)
next
  case (Cons e es)
  from nx_add_edge_grows [OF Cons.prems(1), of e] Cons.prems(2)
  obtain nbrs1 where "map_of (nx_add_edge e g) n = Some nbrs1" "w \<in> set nbrs1" by blast
  from Cons.IH [OF this] show ?case by (simp add: nx_add_edges_from_def)
qed

lemma nx_add_edges_from_has:
  assumes "(u, v) \<in> set es"
  shows "(\<exists>nbrs. map_of (nx_add_edges_from es g) u = Some nbrs \<and> v \<in> set nbrs)
       \<and> (\<exists>nbrs. map_of (nx_add_edges_from es g) v = Some nbrs \<and> u \<in> set nbrs)"
  using assms
proof (induction es arbitrary: g)
  case Nil
  then show ?case by simp
next
  case (Cons e es)
  have step: "nx_add_edges_from (e # es) g = nx_add_edges_from es (nx_add_edge e g)"
    by (simp add: nx_add_edges_from_def)
  show ?case
  proof (cases "e = (u, v)")
    case True
    from nx_add_edge_has [of u v g] obtain n1 n2 where
      "map_of (nx_add_edge (u, v) g) u = Some n1" "v \<in> set n1"
      "map_of (nx_add_edge (u, v) g) v = Some n2" "u \<in> set n2" by blast
    from nx_add_edges_from_grows [OF this(1,2), of es] nx_add_edges_from_grows [OF this(3,4), of es]
    show ?thesis
      unfolding True step [unfolded True] by (rule conjI)
  next
    case False
    with Cons.prems have "(u, v) \<in> set es" by simp
    from Cons.IH [OF this] show ?thesis unfolding step .
  qed
qed

lemma nonempty_edges_set: "e \<in> set (nonempty_edges es) \<longleftrightarrow> Some e \<in> set es"
  by (induction es rule: nonempty_edges.induct) auto

subsection \<open>The layout loop\<close>

lemma adjust_step:
  assumes "adjust_minimap_origins room direction origins name nodes = Inr (origins', r)"
  shows "fst ` set origins \<subseteq> fst ` set origins'"
    and "distinct (map fst origins) \<Longrightarrow> distinct (map fst origins')"
    and "subscript (paths room) direction = Inr (PStr d) \<Longrightarrow> d \<noteq> [] \<Longrightarrow>
         \<exists>a b. map_of nodes name = Some a \<and> map_of nodes d = Some b \<and> r = Some (a, b)
               \<and> name \<in> fst ` set origins' \<and> d \<in> fst ` set origins'"
proof -
  from adjust_Inr_cases [OF assms] consider
    (none) dest where "origins' = origins" "subscript (paths room) direction = Inr dest"
      "\<not> truthy dest"
  | (some) d' a b where "subscript (paths room) direction = Inr (PStr d')"
      "map_of nodes name = Some a" "map_of nodes d' = Some b" "r = Some (a, b)"
      "fst ` set origins' = fst ` set origins \<union> {name, d'}"
      "distinct (map fst origins) \<longrightarrow> distinct (map fst origins')"
    by blast
  note c = this
  show "fst ` set origins \<subseteq> fst ` set origins'"
  proof (cases rule: c)
    case none
    then show ?thesis by simp
  next
    case some
    then show ?thesis by blast
  qed
  show "distinct (map fst origins) \<Longrightarrow> distinct (map fst origins')"
  proof (cases rule: c)
    case none
    assume "distinct (map fst origins)"
    with none show ?thesis by simp
  next
    case some
    assume "distinct (map fst origins)"
    with some show ?thesis by blast
  qed
  assume d: "subscript (paths room) direction = Inr (PStr d)" "d \<noteq> []"
  show "\<exists>a b. map_of nodes name = Some a \<and> map_of nodes d = Some b \<and> r = Some (a, b)
               \<and> name \<in> fst ` set origins' \<and> d \<in> fst ` set origins'"
  proof (cases rule: c)
    case none
    with d show ?thesis by simp
  next
    case some
    from some(1) d(1) have "d' = d" by simp
    with some show ?thesis by blast
  qed
qed

lemma construct_directions_mono:
  "construct_directions room name nodes ds st = Inr st' \<Longrightarrow>
   fst ` set (fst st) \<subseteq> fst ` set (fst st') \<and> set (snd st) \<subseteq> set (snd st')
   \<and> (distinct (map fst (fst st)) \<longrightarrow> distinct (map fst (fst st')))"
proof (induction ds arbitrary: st)
  case Nil
  then show ?case by simp
next
  case (Cons dir ds)
  from Cons.prems obtain r where
    a: "adjust_minimap_origins room dir (fst st) name nodes = Inr r"
    and c: "construct_directions room name nodes ds (fst r, snd st @ [snd r]) = Inr st'"
    by (auto split: sum.splits)
  from a have a': "adjust_minimap_origins room dir (fst st) name nodes = Inr (fst r, snd r)"
    by simp
  from Cons.IH [OF c] adjust_step(1,2) [OF a'] show ?case by auto
qed

lemma construct_directions_edge:
  "construct_directions room name nodes ds st = Inr st' \<Longrightarrow> dir \<in> set ds \<Longrightarrow>
   subscript (paths room) dir = Inr (PStr d) \<Longrightarrow> d \<noteq> [] \<Longrightarrow>
   \<exists>a b. map_of nodes name = Some a \<and> map_of nodes d = Some b \<and> Some (a, b) \<in> set (snd st')
         \<and> name \<in> fst ` set (fst st') \<and> d \<in> fst ` set (fst st')"
proof (induction ds arbitrary: st)
  case Nil
  then show ?case by simp
next
  case (Cons dir' ds)
  from Cons.prems(1) obtain r where
    a: "adjust_minimap_origins room dir' (fst st) name nodes = Inr r"
    and c: "construct_directions room name nodes ds (fst r, snd st @ [snd r]) = Inr st'"
    by (auto split: sum.splits)
  from a have a': "adjust_minimap_origins room dir' (fst st) name nodes = Inr (fst r, snd r)"
    by simp
  show ?case
  proof (cases "dir = dir'")
    case True
    from adjust_step(3) [OF a', of d] Cons.prems(3,4) True obtain a b where
      ab: "map_of nodes name = Some a" "map_of nodes d = Some b" "snd r = Some (a, b)"
      "name \<in> fst ` set (fst r)" "d \<in> fst ` set (fst r)" by auto
    from construct_directions_mono [OF c] have
      "fst ` set (fst r) \<subseteq> fst ` set (fst st')" "set (snd st @ [snd r]) \<subseteq> set (snd st')"
      by simp_all
    with ab(3,4,5) have "Some (a, b) \<in> set (snd st')"
      "name \<in> fst ` set (fst st')" "d \<in> fst ` set (fst st')" by auto
    with ab(1,2) show ?thesis by blast
  next
    case False
    with Cons.prems(2) have "dir \<in> set ds" by simp
    from Cons.IH [OF c this Cons.prems(3,4)] show ?thesis .
  qed
qed

lemma construct_rooms_mono:
  "construct_rooms nodes rooms st = Inr st' \<Longrightarrow>
   fst ` set (fst st) \<subseteq> fst ` set (fst st') \<and> set (snd st) \<subseteq> set (snd st')
   \<and> (distinct (map fst (fst st)) \<longrightarrow> distinct (map fst (fst st')))"
proof (induction rooms arbitrary: st)
  case Nil
  then show ?case by simp
next
  case (Cons nr rooms)
  from Cons.prems obtain st1 where
    d: "construct_directions (snd nr) (fst nr) nodes [''up'', ''down'', ''left'', ''right''] st = Inr st1"
    and c: "construct_rooms nodes rooms st1 = Inr st'"
    by (auto split: sum.splits simp del: construct_directions.simps)
  from construct_directions_mono [OF d] Cons.IH [OF c] show ?case by auto
qed

lemma construct_rooms_edge:
  "construct_rooms nodes rooms st = Inr st' \<Longrightarrow> (name, room) \<in> set rooms \<Longrightarrow>
   dir \<in> set [''up'', ''down'', ''left'', ''right''] \<Longrightarrow>
   subscript (paths room) dir = Inr (PStr d) \<Longrightarrow> d \<noteq> [] \<Longrightarrow>
   \<exists>a b. map_of nodes name = Some a \<and> map_of nodes d = Some b \<and> Some (a, b) \<in> set (snd st')
         \<and> name \<in> fst ` set (fst st') \<and> d \<in> fst ` set (fst st')"
proof (induction rooms arbitrary: st)
  case Nil
  then show ?case by simp
next
  case (Cons nr rooms)
  from Cons.prems(1) obtain st1 where
    d: "construct_directions (snd nr) (fst nr) nodes [''up'', ''down'', ''left'', ''right''] st = Inr st1"
    and c: "construct_rooms nodes rooms st1 = Inr st'"
    by (auto split: sum.splits simp del: construct_directions.simps)
  show ?case
  proof (cases "nr = (name, room)")
    case True
    with d have "construct_directions room name nodes [''up'', ''down'', ''left'', ''right''] st = Inr st1"
      by (simp del: construct_directions.simps)
    from construct_directions_edge [OF this Cons.prems(3,4,5)] obtain a b where
      ab: "map_of nodes name = Some a" "map_of nodes d = Some b" "Some (a, b) \<in> set (snd st1)"
      "name \<in> fst ` set (fst st1)" "d \<in> fst ` set (fst st1)" by blast
    from construct_rooms_mono [OF c] have
      "fst ` set (fst st1) \<subseteq> fst ` set (fst st')" "set (snd st1) \<subseteq> set (snd st')"
      by simp_all
    with ab(3,4,5) have "Some (a, b) \<in> set (snd st')"
      "name \<in> fst ` set (fst st')" "d \<in> fst ` set (fst st')" by blast+
    with ab(1,2) show ?thesis by blast
  next
    case False
    with Cons.prems(2) have "(name, room) \<in> set rooms" by simp
    from Cons.IH [OF c this Cons.prems(3,4,5)] show ?thesis .
  qed
qed

lemma construct_minimap_Inr:
  assumes "construct_minimap g0 nodes rooms = Inr (origins, g)"
  shows "distinct (map fst origins)"
    and "(name, room) \<in> set rooms \<Longrightarrow> dir \<in> set [''up'', ''down'', ''left'', ''right''] \<Longrightarrow>
         subscript (paths room) dir = Inr (PStr d) \<Longrightarrow> d \<noteq> [] \<Longrightarrow>
         \<exists>a b. map_of nodes name = Some a \<and> map_of nodes d = Some b
           \<and> name \<in> fst ` set origins \<and> d \<in> fst ` set origins
           \<and> (\<exists>nbrs. map_of g a = Some nbrs \<and> b \<in> set nbrs)
           \<and> (\<exists>nbrs. map_of g b = Some nbrs \<and> a \<in> set nbrs)"
proof -
  from assms obtain st where c: "construct_rooms nodes rooms ([], []) = Inr st"
    and o: "origins = fst st" and g: "g = nx_add_edges_from (nonempty_edges (snd st)) g0"
    by (auto simp add: construct_minimap_def split: sum.splits)
  from construct_rooms_mono [OF c] show "distinct (map fst origins)" by (simp add: o)
  assume "(name, room) \<in> set rooms" "dir \<in> set [''up'', ''down'', ''left'', ''right'']"
    "subscript (paths room) dir = Inr (PStr d)" "d \<noteq> []"
  from construct_rooms_edge [OF c this] obtain a b where
    ab: "map_of nodes name = Some a" "map_of nodes d = Some b" "Some (a, b) \<in> set (snd st)"
    "name \<in> fst ` set (fst st)" "d \<in> fst ` set (fst st)" by blast
  from ab(3) have "(a, b) \<in> set (nonempty_edges (snd st))" by (simp add: nonempty_edges_set)
  from nx_add_edges_from_has [OF this, of g0] ab
  show "\<exists>a b. map_of nodes name = Some a \<and> map_of nodes d = Some b
           \<and> name \<in> fst ` set origins \<and> d \<in> fst ` set origins
           \<and> (\<exists>nbrs. map_of g a = Some nbrs \<and> b \<in> set nbrs)
           \<and> (\<exists>nbrs. map_of g b = Some nbrs \<and> a \<in> set nbrs)"
    unfolding o g by blast
qed

subsection \<open>The two loops over the origins\<close>

lemma update_keys_present:
  "map_of al k = Some v \<Longrightarrow> map fst (AList.update k v' al) = map fst al"
  by (induction al) auto

lemma assign_node_ids_keys:
  "assign_node_ids width nodes os st = Inr st' \<Longrightarrow> map fst (snd st') = map fst (snd st)"
proof (induction os arbitrary: st)
  case Nil
  then show ?case by simp
next
  case (Cons no os)
  from Cons.prems obtain i info where
    i: "map_of nodes (fst no) = Some i" and info: "map_of (snd st) (fst no) = Some info"
    and r: "assign_node_ids width nodes os
              ((fst st)(i \<mapsto> px (snd no) + py (snd no) * width),
               AList.update (fst no) (info\<lparr>node_id := Some (px (snd no) + py (snd no) * width)\<rparr>) (snd st))
            = Inr st'"
    by (auto simp add: Let_def split: option.splits)
  from Cons.IH [OF r] update_keys_present [OF info] show ?case by simp
qed

lemma assign_node_ids_other:
  "assign_node_ids width nodes os st = Inr st' \<Longrightarrow> n \<notin> fst ` set os \<Longrightarrow>
   map_of (snd st') n = map_of (snd st) n"
proof (induction os arbitrary: st)
  case Nil
  then show ?case by simp
next
  case (Cons no os)
  from Cons.prems(1) obtain i info where
    i: "map_of nodes (fst no) = Some i" and info: "map_of (snd st) (fst no) = Some info"
    and r: "assign_node_ids width nodes os
              ((fst st)(i \<mapsto> px (snd no) + py (snd no) * width),
               AList.update (fst no) (info\<lparr>node_id := Some (px (snd no) + py (snd no) * width)\<rparr>) (snd st))
            = Inr st'"
    by (auto simp add: Let_def split: option.splits)
  from Cons.prems(2) have "n \<notin> fst ` set os" "n \<noteq> fst no" by auto
  from Cons.IH [OF r this(1)] this(2) show ?case
    by (simp add: AList.update_conv')
qed

lemma assign_node_ids_remap_other:
  "assign_node_ids width nodes os st = Inr st' \<Longrightarrow>
   \<forall>n'\<in>fst ` set os. map_of nodes n' \<noteq> Some i \<Longrightarrow> fst st' i = fst st i"
proof (induction os arbitrary: st)
  case Nil
  then show ?case by simp
next
  case (Cons no os)
  from Cons.prems(1) obtain j info where
    j: "map_of nodes (fst no) = Some j" and info: "map_of (snd st) (fst no) = Some info"
    and r: "assign_node_ids width nodes os
              ((fst st)(j \<mapsto> px (snd no) + py (snd no) * width),
               AList.update (fst no) (info\<lparr>node_id := Some (px (snd no) + py (snd no) * width)\<rparr>) (snd st))
            = Inr st'"
    by (auto simp add: Let_def split: option.splits)
  from Cons.prems(2) j have "j \<noteq> i" "\<forall>n'\<in>fst ` set os. map_of nodes n' \<noteq> Some i" by auto
  from Cons.IH [OF r this(2)] this(1) show ?case by simp
qed

lemma assign_node_ids_set:
  assumes "assign_node_ids width nodes os st = Inr st'" "distinct (map fst os)" "(n, p) \<in> set os"
  shows "\<exists>info i. map_of (snd st) n = Some info \<and> map_of nodes n = Some i
           \<and> map_of (snd st') n = Some (info\<lparr>node_id := Some (px p + py p * width)\<rparr>)
           \<and> ((\<forall>n'\<in>fst ` set os. map_of nodes n' = Some i \<longrightarrow> n' = n)
                \<longrightarrow> fst st' i = Some (px p + py p * width))"
  using assms
proof (induction os arbitrary: st)
  case Nil
  then show ?case by simp
next
  case (Cons no os)
  from Cons.prems(1) obtain j info where
    j: "map_of nodes (fst no) = Some j" and info: "map_of (snd st) (fst no) = Some info"
    and r: "assign_node_ids width nodes os
              ((fst st)(j \<mapsto> px (snd no) + py (snd no) * width),
               AList.update (fst no) (info\<lparr>node_id := Some (px (snd no) + py (snd no) * width)\<rparr>) (snd st))
            = Inr st'"
    by (auto simp add: Let_def split: option.splits)
  from Cons.prems(2) have d: "distinct (map fst os)" "fst no \<notin> fst ` set os" by auto
  show ?case
  proof (cases "no = (n, p)")
    case True
    with d(2) have notin: "n \<notin> fst ` set os" by simp
    from assign_node_ids_other [OF r notin] True
    have m: "map_of (snd st') n = Some (info\<lparr>node_id := Some (px p + py p * width)\<rparr>)"
      by (simp add: AList.update_conv')
    have "fst st' j = Some (px p + py p * width)"
      if inj: "\<forall>n'\<in>fst ` set (no # os). map_of nodes n' = Some j \<longrightarrow> n' = n"
    proof -
      have "\<forall>n'\<in>fst ` set os. map_of nodes n' \<noteq> Some j"
      proof (intro ballI notI)
        fix n' assume a: "n' \<in> fst ` set os" "map_of nodes n' = Some j"
        from a(1) have "n' \<in> fst ` set (no # os)" by simp
        with inj a(2) have "n' = n" by blast
        with a(1) notin show False by simp
      qed
      from assign_node_ids_remap_other [OF r this] True show ?thesis by simp
    qed
    with m info j True show ?thesis by auto
  next
    case False
    with Cons.prems(3) have in_os: "(n, p) \<in> set os" by simp
    then have "n \<in> fst ` set os" by (rule image_eqI [rotated]) simp
    with d(2) have ne: "n \<noteq> fst no" by blast
    from Cons.IH [OF r d(1) in_os] obtain info' i where
      x: "map_of (AList.update (fst no) (info\<lparr>node_id := Some (px (snd no) + py (snd no) * width)\<rparr>) (snd st)) n = Some info'"
      "map_of nodes n = Some i"
      "map_of (snd st') n = Some (info'\<lparr>node_id := Some (px p + py p * width)\<rparr>)"
      "(\<forall>n'\<in>fst ` set os. map_of nodes n' = Some i \<longrightarrow> n' = n)
                \<longrightarrow> fst st' i = Some (px p + py p * width)"
      by auto
    from x(1) ne have "map_of (snd st) n = Some info'" by (simp add: AList.update_conv')
    with x(2,3,4) show ?thesis by auto
  qed
qed

lemma append_edges_Inr:
  "append_edges remap name es rm = Inr rm' \<Longrightarrow>
   map fst rm' = map fst rm
   \<and> (\<forall>n. n \<noteq> name \<longrightarrow> map_of rm' n = map_of rm n)
   \<and> (es \<noteq> [] \<longrightarrow> map_of rm name \<noteq> None)
   \<and> (\<forall>info. map_of rm name = Some info \<longrightarrow>
        (\<exists>fs. map_of rm' name = Some (info\<lparr>edges := edges info @ fs\<rparr>)
           \<and> (\<forall>e\<in>set es. \<forall>f. remap (snd e) = Some f \<longrightarrow> f \<in> set fs)))"
proof (induction es arbitrary: rm)
  case Nil
  then have "rm' = rm" by simp
  moreover have "info = info\<lparr>edges := edges info @ []\<rparr>" for info :: node_info by simp
  ultimately show ?case by (metis empty_iff list.set(1))
next
  case (Cons e es)
  from Cons.prems obtain info f where
    info: "map_of rm name = Some info" and f: "remap (snd e) = Some f"
    and r: "append_edges remap name es (AList.update name (info\<lparr>edges := edges info @ [f]\<rparr>) rm) = Inr rm'"
    by (auto split: option.splits)
  define rm1 where "rm1 = AList.update name (info\<lparr>edges := edges info @ [f]\<rparr>) rm"
  have k1: "map fst rm1 = map fst rm" unfolding rm1_def using info by (rule update_keys_present)
  have o1: "\<forall>n. n \<noteq> name \<longrightarrow> map_of rm1 n = map_of rm n"
    by (simp add: rm1_def AList.update_conv')
  have n1: "map_of rm1 name = Some (info\<lparr>edges := edges info @ [f]\<rparr>)"
    by (simp add: rm1_def AList.update_conv')
  from Cons.IH [OF r [folded rm1_def]] have
    k: "map fst rm' = map fst rm1" and o: "\<forall>n. n \<noteq> name \<longrightarrow> map_of rm' n = map_of rm1 n"
    and h: "\<forall>info. map_of rm1 name = Some info \<longrightarrow>
        (\<exists>fs. map_of rm' name = Some (info\<lparr>edges := edges info @ fs\<rparr>)
           \<and> (\<forall>e\<in>set es. \<forall>f. remap (snd e) = Some f \<longrightarrow> f \<in> set fs))"
    by blast+
  from h n1 obtain fs where
    fs: "map_of rm' name = Some (info\<lparr>edges := edges info @ [f]\<rparr>\<lparr>edges := edges (info\<lparr>edges := edges info @ [f]\<rparr>) @ fs\<rparr>)"
    "\<forall>e\<in>set es. \<forall>f. remap (snd e) = Some f \<longrightarrow> f \<in> set fs" by blast
  from fs(1) have 1: "map_of rm' name = Some (info\<lparr>edges := edges info @ (f # fs)\<rparr>)" by simp
  from fs(2) f have 2: "\<forall>e'\<in>set (e # es). \<forall>f'. remap (snd e') = Some f' \<longrightarrow> f' \<in> set (f # fs)"
    by auto
  from 1 2 have "\<forall>info'. map_of rm name = Some info' \<longrightarrow>
        (\<exists>fs. map_of rm' name = Some (info'\<lparr>edges := edges info' @ fs\<rparr>)
           \<and> (\<forall>e\<in>set (e # es). \<forall>f. remap (snd e) = Some f \<longrightarrow> f \<in> set fs))"
    using info by (metis option.inject)
  with k k1 o o1 info show ?case by simp
qed

lemma collect_edges_mono:
  "collect_edges g nodes remap os rm = Inr rm' \<Longrightarrow>
   map fst rm' = map fst rm
   \<and> (\<forall>n info. map_of rm n = Some info \<longrightarrow>
        (\<exists>info'. map_of rm' n = Some info' \<and> node_id info' = node_id info
            \<and> set (edges info) \<subseteq> set (edges info')))"
proof (induction os arbitrary: rm)
  case Nil
  then show ?case by simp
next
  case (Cons no os)
  from Cons.prems obtain i es rm1 where
    a: "append_edges remap (fst no) es rm = Inr rm1"
    and r: "collect_edges g nodes remap os rm1 = Inr rm'"
    by (auto split: option.splits sum.splits)
  note ae = append_edges_Inr [OF a]
  note ih = Cons.IH [OF r]
  have "\<exists>info'. map_of rm' n = Some info' \<and> node_id info' = node_id info
            \<and> set (edges info) \<subseteq> set (edges info')"
    if m: "map_of rm n = Some info" for n info
  proof -
    have "\<exists>info1. map_of rm1 n = Some info1 \<and> node_id info1 = node_id info
            \<and> set (edges info) \<subseteq> set (edges info1)"
    proof (cases "n = fst no")
      case True
      with ae m obtain fs where "map_of rm1 n = Some (info\<lparr>edges := edges info @ fs\<rparr>)"
        by blast
      then show ?thesis by simp
    next
      case False
      with ae m have "map_of rm1 n = Some info" by simp
      then show ?thesis by simp
    qed
    then obtain info1 where i1: "map_of rm1 n = Some info1" "node_id info1 = node_id info"
      "set (edges info) \<subseteq> set (edges info1)" by blast
    from ih i1(1) obtain info' where "map_of rm' n = Some info'" "node_id info' = node_id info1"
      "set (edges info1) \<subseteq> set (edges info')" by blast
    with i1 show ?thesis by auto
  qed
  moreover from ae ih have "map fst rm' = map fst rm" by simp
  ultimately show ?case by blast
qed

lemma collect_edges_has:
  "collect_edges g nodes remap os rm = Inr rm' \<Longrightarrow> (n, p) \<in> set os \<Longrightarrow>
   map_of nodes n = Some i \<Longrightarrow> map_of g i = Some nbrs \<Longrightarrow> v \<in> set nbrs \<Longrightarrow>
   remap v = Some f \<Longrightarrow>
   \<exists>info'. map_of rm' n = Some info' \<and> f \<in> set (edges info')"
proof (induction os arbitrary: rm)
  case Nil
  then show ?case by simp
next
  case (Cons no os)
  from Cons.prems(1) obtain j es rm1 where
    j: "map_of nodes (fst no) = Some j" and es: "nx_edges g j = Inr es"
    and a: "append_edges remap (fst no) es rm = Inr rm1"
    and r: "collect_edges g nodes remap os rm1 = Inr rm'"
    by (auto split: option.splits sum.splits)
  show ?case
  proof (cases "no = (n, p)")
    case True
    with j Cons.prems(3) have "j = i" by simp
    with es Cons.prems(4) have es': "es = map (\<lambda>m. (i, m)) nbrs"
      by (simp add: nx_edges_def)
    with Cons.prems(5) have in_es: "(i, v) \<in> set es" by simp
    then have "es \<noteq> []" by auto
    with append_edges_Inr [OF a] True obtain info where info: "map_of rm n = Some info"
      by auto
    with append_edges_Inr [OF a] True obtain fs where
      fs: "map_of rm1 n = Some (info\<lparr>edges := edges info @ fs\<rparr>)"
      "\<forall>e\<in>set es. \<forall>f. remap (snd e) = Some f \<longrightarrow> f \<in> set fs"
      by (metis fst_conv)
    from fs(2) in_es Cons.prems(6) have "f \<in> set fs" by force
    with fs(1) obtain info1 where "map_of rm1 n = Some info1" "f \<in> set (edges info1)"
      by simp
    with collect_edges_mono [OF r] show ?thesis by blast
  next
    case False
    with Cons.prems(2) have "(n, p) \<in> set os" by simp
    from Cons.IH [OF r this Cons.prems(3,4,5,6)] show ?thesis .
  qed
qed

lemma map_of_Some_keys:
  "map fst xs = map fst ys \<Longrightarrow> map_of xs k = Some v \<Longrightarrow> \<exists>w. map_of ys k = Some w"
  by (metis map_of_eq_None_iff not_Some_eq set_map)

text \<open>What a successful build has recorded for a room with an origin.\<close>

lemma Map_build_room:
  assumes b: "Map_build rooms = Inr m" and o: "(n, p) \<in> set (Map_origins m)"
  shows "\<exists>info i w g raw.
      map_of (Map_room_map m) n = Some info
    \<and> node_id info = Some (px p + py p * (px w + 1))
    \<and> max_by px (map snd (Map_origins m)) = Inr w
    \<and> map_of (zip (map fst rooms) [0..<length rooms]) n = Some i
    \<and> construct_minimap (nx_add_nodes_from (map snd (zip (map fst rooms) [0..<length rooms])) [])
         (zip (map fst rooms) [0..<length rooms]) rooms = Inr (raw, g)
    \<and> map fst raw = map fst (Map_origins m)
    \<and> (\<forall>nbrs v. map_of g i = Some nbrs \<longrightarrow> v \<in> set nbrs \<longrightarrow>
          (\<forall>n' p' i'. (n', p') \<in> set (Map_origins m)
              \<longrightarrow> map_of (zip (map fst rooms) [0..<length rooms]) n' = Some i' \<longrightarrow> i' = v
              \<longrightarrow> px p' + py p' * (px w + 1) \<in> set (edges info)))"
proof -
  define nodes where "nodes = zip (map fst rooms) [0..<length rooms]"
  from Map_build_Inr [OF b] obtain raw g w st where
    c: "construct_minimap (nx_add_nodes_from (map snd nodes) []) nodes rooms = Inr (raw, g)"
    and nz: "normalize_origins raw = Inr (Map_origins m)"
    and w: "max_by px (map snd (Map_origins m)) = Inr w"
    and l1: "assign_node_ids (px w + 1) nodes (Map_origins m)
          (Map.empty, map (\<lambda>(room, p). (room, \<lparr>node_id = None, edges = []\<rparr>)) (Map_origins m))
         = Inr st"
    and l2: "collect_edges g nodes (fst st) (Map_origins m) (snd st) = Inr (Map_room_map m)"
    unfolding nodes_def by blast
  from normalize_origins_keys [OF nz] have keys: "map fst (Map_origins m) = map fst raw" .
  from construct_minimap_Inr(1) [OF c] keys have dist: "distinct (map fst (Map_origins m))"
    by simp
  have inj: "\<forall>n'\<in>fst ` set (Map_origins m). map_of nodes n' = Some i \<longrightarrow> n' = n"
    if "map_of nodes n = Some i" for n i
    using that nodes_inj [of "map fst rooms" _ i n] unfolding nodes_def by auto
  have final: "\<exists>info i. map_of (snd st) n = Some info \<and> map_of nodes n = Some i
        \<and> node_id info = Some (px p + py p * (px w + 1))
        \<and> fst st i = Some (px p + py p * (px w + 1))"
    if "(n, p) \<in> set (Map_origins m)" for n p
  proof -
    from assign_node_ids_set [OF l1 dist that] obtain info0 i where
      x: "map_of nodes n = Some i"
      "map_of (snd st) n = Some (info0\<lparr>node_id := Some (px p + py p * (px w + 1))\<rparr>)"
      "(\<forall>n'\<in>fst ` set (Map_origins m). map_of nodes n' = Some i \<longrightarrow> n' = n)
                \<longrightarrow> fst st i = Some (px p + py p * (px w + 1))"
      by blast
    from x(3) inj [OF x(1)] have "fst st i = Some (px p + py p * (px w + 1))" by blast
    with x(1,2) show ?thesis by simp
  qed
  from final [OF o] obtain info1 i where
    i1: "map_of (snd st) n = Some info1" "map_of nodes n = Some i"
    "node_id info1 = Some (px p + py p * (px w + 1))" by blast
  from collect_edges_mono [OF l2] i1(1) obtain info where
    info: "map_of (Map_room_map m) n = Some info" "node_id info = node_id info1" by blast
  have "px p' + py p' * (px w + 1) \<in> set (edges info)"
    if h: "map_of g i = Some nbrs" "v \<in> set nbrs" "(n', p') \<in> set (Map_origins m)"
      "map_of nodes n' = Some v" for nbrs v n' p'
  proof -
    from final [OF h(3)] h(4) have "fst st v = Some (px p' + py p' * (px w + 1))" by auto
    from collect_edges_has [OF l2 o i1(2) h(1,2) this] info(1) show ?thesis by simp
  qed
  with info i1 w c keys show ?thesis unfolding nodes_def [symmetric] by (simp; blast)
qed

lemma Map_build_keys:
  assumes "Map_build rooms = Inr m"
  shows "map fst (Map_room_map m) = map fst (Map_origins m)"
    and "distinct (map fst (Map_origins m))"
    and "Map_origins m \<noteq> []"
proof -
  from Map_build_Inr [OF assms] obtain raw g w st where
    c: "construct_minimap (nx_add_nodes_from (map snd (zip (map fst rooms) [0..<length rooms])) [])
          (zip (map fst rooms) [0..<length rooms]) rooms = Inr (raw, g)"
    and nz: "normalize_origins raw = Inr (Map_origins m)"
    and w: "max_by px (map snd (Map_origins m)) = Inr w"
    and l1: "assign_node_ids (px w + 1) (zip (map fst rooms) [0..<length rooms]) (Map_origins m)
          (Map.empty, map (\<lambda>(room, p). (room, \<lparr>node_id = None, edges = []\<rparr>)) (Map_origins m))
         = Inr st"
    and l2: "collect_edges g (zip (map fst rooms) [0..<length rooms]) (fst st) (Map_origins m) (snd st)
         = Inr (Map_room_map m)"
    by blast
  from collect_edges_mono [OF l2] assign_node_ids_keys [OF l1]
  show "map fst (Map_room_map m) = map fst (Map_origins m)"
    by (simp add: comp_def case_prod_beta)
  from construct_minimap_Inr(1) [OF c] normalize_origins_keys [OF nz]
  show "distinct (map fst (Map_origins m))" by simp
  from normalize_origins_Inr [OF nz] show "Map_origins m \<noteq> []" by simp
qed

text \<open>
  Claim C3. After a successful build every room of the room map is a room with an origin,
  and its recorded node id is \<open>x + y * width\<close> for its normalized origin \<open>(x, y)\<close>, where
  \<open>width\<close> is the greatest normalized x over all assigned origins plus 1.
\<close>

theorem node_id_row_major:
  assumes "Map_build rooms = Inr m" and "map_of (Map_room_map m) name = Some info"
  shows "map fst (Map_room_map m) = map fst (Map_origins m)
     \<and> (\<exists>p. map_of (Map_origins m) name = Some p
           \<and> node_id info
               = Some (px p + py p * (Max (px ` snd ` set (Map_origins m)) + 1)))"
proof -
  note keys = Map_build_keys(1) [OF assms(1)]
  from map_of_Some_keys [OF keys assms(2)] obtain p where
    p: "map_of (Map_origins m) name = Some p" by blast
  then have "(name, p) \<in> set (Map_origins m)" by (rule map_of_SomeD)
  from Map_build_room [OF assms(1) this] assms(2) obtain w where
    "node_id info = Some (px p + py p * (px w + 1))"
    "max_by px (map snd (Map_origins m)) = Inr w" by auto
  with max_by_Max [of px "map snd (Map_origins m)" w]
  have "node_id info = Some (px p + py p * (Max (px ` snd ` set (Map_origins m)) + 1))"
    by (simp add: image_image)
  with keys p show ?thesis by blast
qed

theorem node_id_row_major_witness:
  "Map_build
     [(''A'', \<lparr>messages = PNone, door = PNone, fight = PNone,
               paths = PDict [(''up'', PNone), (''down'', PNone), (''left'', PNone),
                              (''right'', PStr ''B'')]\<rparr>),
      (''B'', \<lparr>messages = PNone, door = PNone, fight = PNone,
               paths = PDict [(''up'', PNone), (''down'', PNone), (''left'', PNone),
                              (''right'', PNone)]\<rparr>)]
   = Inr \<lparr>Map_origins = [(''A'', \<lparr>px = 0, py = 0\<rparr>), (''B'', \<lparr>px = 1, py = 0\<rparr>)],
          Map_room_map = [(''A'', \<lparr>node_id = Some 0, edges = [1]\<rparr>),
                          (''B'', \<lparr>node_id = Some 1, edges = [0]\<rparr>)]\<rparr>
   \<and> (\<exists>p. map_of [(''A'', \<lparr>px = 0, py = 0\<rparr>), (''B'', \<lparr>px = 1, py = 0\<rparr>)] ''B'' = Some p
         \<and> node_id \<lparr>node_id = Some 1, edges = [0]\<rparr>
             = Some (px p + py p
                 * (Max (px ` snd ` set [(''A'', \<lparr>px = 0, py = 0\<rparr>), (''B'', \<lparr>px = 1, py = 0\<rparr>)]) + 1)))"
proof -
  have h: "Map_build
     [(''A'', \<lparr>messages = PNone, door = PNone, fight = PNone,
               paths = PDict [(''up'', PNone), (''down'', PNone), (''left'', PNone),
                              (''right'', PStr ''B'')]\<rparr>),
      (''B'', \<lparr>messages = PNone, door = PNone, fight = PNone,
               paths = PDict [(''up'', PNone), (''down'', PNone), (''left'', PNone),
                              (''right'', PNone)]\<rparr>)]
   = Inr \<lparr>Map_origins = [(''A'', \<lparr>px = 0, py = 0\<rparr>), (''B'', \<lparr>px = 1, py = 0\<rparr>)],
          Map_room_map = [(''A'', \<lparr>node_id = Some 0, edges = [1]\<rparr>),
                          (''B'', \<lparr>node_id = Some 1, edges = [0]\<rparr>)]\<rparr>"
    by (simp add: build_eval upt_rec)
  have i: "map_of (Map_room_map \<lparr>Map_origins = [(''A'', \<lparr>px = 0, py = 0\<rparr>), (''B'', \<lparr>px = 1, py = 0\<rparr>)],
          Map_room_map = [(''A'', \<lparr>node_id = Some 0, edges = [1]\<rparr>),
                          (''B'', \<lparr>node_id = Some 1, edges = [0]\<rparr>)]\<rparr>) ''B''
      = Some \<lparr>node_id = Some 1, edges = [0]\<rparr>"
    by simp
  from node_id_row_major [OF h i] h show ?thesis by simp
qed

text \<open>
  Claim C4, as stated, fails for a room whose name is the empty string: an exit that names
  it is the empty string, which the truth test of \<^verbatim>\<open>_adjust_minimap_origins\<close> takes for
  no exit. Here \<open>A\<close> lists the room \<open>''\<close> to its left and \<open>C\<close> to its right; the build
  succeeds, and the room \<open>''\<close> has no node id and is in no neighbour list.
\<close>

theorem empty_name_neighbor_counterexample:
  "Map_build
     [('''', \<lparr>messages = PNone, door = PNone, fight = PNone,
               paths = PDict [(''up'', PNone), (''down'', PNone), (''left'', PNone),
                              (''right'', PNone)]\<rparr>),
      (''A'', \<lparr>messages = PNone, door = PNone, fight = PNone,
               paths = PDict [(''up'', PNone), (''down'', PNone), (''left'', PStr ''''),
                              (''right'', PStr ''C'')]\<rparr>),
      (''C'', \<lparr>messages = PNone, door = PNone, fight = PNone,
               paths = PDict [(''up'', PNone), (''down'', PNone), (''left'', PNone),
                              (''right'', PNone)]\<rparr>)]
   = Inr \<lparr>Map_origins = [(''A'', \<lparr>px = 0, py = 0\<rparr>), (''C'', \<lparr>px = 1, py = 0\<rparr>)],
          Map_room_map = [(''A'', \<lparr>node_id = Some 0, edges = [1]\<rparr>),
                          (''C'', \<lparr>node_id = Some 1, edges = [0]\<rparr>)]\<rparr>
   \<and> map_of [(''A'', \<lparr>node_id = Some 0, edges = [1]\<rparr>),
              (''C'', \<lparr>node_id = Some (1::int), edges = [0::int]\<rparr>)] '''' = None"
  by (simp add: build_eval upt_rec)

text \<open>
  Claim C4, amended. When a room \<open>A\<close> lists a room \<open>B\<close> whose name is not the empty string
  as its neighbour in one of the four directions, then after a successful build both rooms
  have a node id, the node id of \<open>B\<close> is in the neighbour list of \<open>A\<close> and the node id of
  \<open>A\<close> is in the neighbour list of \<open>B\<close>, whether or not \<open>B\<close> lists \<open>A\<close>.
\<close>

theorem directional_neighbors_symmetric:
  assumes b: "Map_build rooms = Inr m" and r: "(A, room) \<in> set rooms"
    and dir: "direction \<in> set [''up'', ''down'', ''left'', ''right'']"
    and ex: "subscript (paths room) direction = Inr (PStr B)" and ne: "B \<noteq> []"
  shows "\<exists>ia ib na nb. map_of (Map_room_map m) A = Some ia \<and> map_of (Map_room_map m) B = Some ib
           \<and> node_id ia = Some na \<and> node_id ib = Some nb
           \<and> nb \<in> set (edges ia) \<and> na \<in> set (edges ib)"
proof -
  define nodes where "nodes = zip (map fst rooms) [0..<length rooms]"
  from Map_build_Inr [OF b] obtain raw g where
    c: "construct_minimap (nx_add_nodes_from (map snd nodes) []) nodes rooms = Inr (raw, g)"
    and nz: "normalize_origins raw = Inr (Map_origins m)"
    unfolding nodes_def by blast
  from construct_minimap_Inr(2) [OF c r dir ex ne] obtain a b nbrs_a nbrs_b where
    ab: "map_of nodes A = Some a" "map_of nodes B = Some b"
    "A \<in> fst ` set raw" "B \<in> fst ` set raw"
    "map_of g a = Some nbrs_a" "b \<in> set nbrs_a"
    "map_of g b = Some nbrs_b" "a \<in> set nbrs_b" by blast
  from normalize_origins_keys [OF nz] have "fst ` set raw = fst ` set (Map_origins m)"
    by (metis set_map)
  with ab(3,4) obtain pa pb where
    pa: "(A, pa) \<in> set (Map_origins m)" and pb: "(B, pb) \<in> set (Map_origins m)"
    by auto
  from Map_build_room [OF b pa] c ab(1) obtain ia wa where
    ia: "map_of (Map_room_map m) A = Some ia"
    "node_id ia = Some (px pa + py pa * (px wa + 1))"
    "max_by px (map snd (Map_origins m)) = Inr wa"
    "\<forall>nbrs v. map_of g a = Some nbrs \<longrightarrow> v \<in> set nbrs \<longrightarrow>
          (\<forall>n' p' i'. (n', p') \<in> set (Map_origins m)
              \<longrightarrow> map_of nodes n' = Some i' \<longrightarrow> i' = v
              \<longrightarrow> px p' + py p' * (px wa + 1) \<in> set (edges ia))"
    unfolding nodes_def [symmetric] by auto
  from Map_build_room [OF b pb] c ab(2) obtain ib wb where
    ib: "map_of (Map_room_map m) B = Some ib"
    "node_id ib = Some (px pb + py pb * (px wb + 1))"
    "max_by px (map snd (Map_origins m)) = Inr wb"
    "\<forall>nbrs v. map_of g b = Some nbrs \<longrightarrow> v \<in> set nbrs \<longrightarrow>
          (\<forall>n' p' i'. (n', p') \<in> set (Map_origins m)
              \<longrightarrow> map_of nodes n' = Some i' \<longrightarrow> i' = v
              \<longrightarrow> px p' + py p' * (px wb + 1) \<in> set (edges ib))"
    unfolding nodes_def [symmetric] by auto
  from ia(3) ib(3) have w: "wb = wa" by simp
  from ia(4) ab(5,6) pb ab(2) have 1: "px pb + py pb * (px wa + 1) \<in> set (edges ia)" by blast
  from ib(4) ab(7,8) pa ab(1) have 2: "px pa + py pa * (px wb + 1) \<in> set (edges ib)" by blast
  from ia(1,2) ib(1,2) 1 2 show ?thesis unfolding w by blast
qed

theorem directional_neighbors_symmetric_witness:
  "Map_build
     [(''A'', \<lparr>messages = PNone, door = PNone, fight = PNone,
               paths = PDict [(''up'', PNone), (''down'', PNone), (''left'', PNone),
                              (''right'', PStr ''B'')]\<rparr>),
      (''B'', \<lparr>messages = PNone, door = PNone, fight = PNone,
               paths = PDict [(''up'', PNone), (''down'', PNone), (''left'', PNone),
                              (''right'', PNone)]\<rparr>)]
   = Inr \<lparr>Map_origins = [(''A'', \<lparr>px = 0, py = 0\<rparr>), (''B'', \<lparr>px = 1, py = 0\<rparr>)],
          Map_room_map = [(''A'', \<lparr>node_id = Some 0, edges = [1]\<rparr>),
                          (''B'', \<lparr>node_id = Some 1, edges = [0]\<rparr>)]\<rparr>
   \<and> (\<exists>ia ib na nb.
         map_of [(''A'', \<lparr>node_id = Some 0, edges = [1]\<rparr>),
                 (''B'', \<lparr>node_id = Some 1, edges = [0]\<rparr>)] ''A'' = Some ia
       \<and> map_of [(''A'', \<lparr>node_id = Some 0, edges = [1]\<rparr>),
                 (''B'', \<lparr>node_id = Some 1, edges = [0]\<rparr>)] ''B'' = Some ib
       \<and> node_id ia = Some na \<and> node_id ib = Some nb
       \<and> nb \<in> set (edges ia) \<and> na \<in> set (edges ib))"
proof -
  have h: "Map_build
     [(''A'', \<lparr>messages = PNone, door = PNone, fight = PNone,
               paths = PDict [(''up'', PNone), (''down'', PNone), (''left'', PNone),
                              (''right'', PStr ''B'')]\<rparr>),
      (''B'', \<lparr>messages = PNone, door = PNone, fight = PNone,
               paths = PDict [(''up'', PNone), (''down'', PNone), (''left'', PNone),
                              (''right'', PNone)]\<rparr>)]
   = Inr \<lparr>Map_origins = [(''A'', \<lparr>px = 0, py = 0\<rparr>), (''B'', \<lparr>px = 1, py = 0\<rparr>)],
          Map_room_map = [(''A'', \<lparr>node_id = Some 0, edges = [1]\<rparr>),
                          (''B'', \<lparr>node_id = Some 1, edges = [0]\<rparr>)]\<rparr>"
    by (simp add: build_eval upt_rec)
  have r: "(''A'', \<lparr>messages = PNone, door = PNone, fight = PNone,
               paths = PDict [(''up'', PNone), (''down'', PNone), (''left'', PNone),
                              (''right'', PStr ''B'')]\<rparr>)
     \<in> set [(''A'', \<lparr>messages = PNone, door = PNone, fight = PNone,
               paths = PDict [(''up'', PNone), (''down'', PNone), (''left'', PNone),
                              (''right'', PStr ''B'')]\<rparr>),
      (''B'', \<lparr>messages = PNone, door = PNone, fight = PNone,
               paths = PDict [(''up'', PNone), (''down'', PNone), (''left'', PNone),
                              (''right'', PNone)]\<rparr>)]"
    by simp
  have d: "''right'' \<in> set [''up'', ''down'', ''left'', ''right'']" by simp
  have e: "subscript (paths \<lparr>messages = PNone, door = PNone, fight = PNone,
               paths = PDict [(''up'', PNone), (''down'', PNone), (''left'', PNone),
                              (''right'', PStr ''B'')]\<rparr>) ''right'' = Inr (PStr ''B'')"
    by simp
  have n: "''B'' \<noteq> []" by simp
  from directional_neighbors_symmetric [OF h r d e n] h show ?thesis by simp
qed

end
